theory Spec2Isabelle
  imports Main "HOL-Library.Word"
begin

section \<open>JavaScript strings and the string primitives the program calls\<close>

text \<open>
  A JavaScript string is a sequence of code units. The embedding uses \<^typ>\<open>string\<close>:
  a \<^typ>\<open>char\<close> with value \<open>n\<close> stands for the code unit U+00\<open>n\<close>, so the model
  is exact on strings over U+0000..U+00FF. The heading extractor, whose pattern tells
  characters beyond that range apart, is embedded a second time on 16-bit code units.
\<close>

definition isLineTerminator :: "char \<Rightarrow> bool" where
  \<comment> \<open>what the regular expression atom \<open>.\<close> refuses: LF and CR (U+2028/2029 are out of range)\<close>
  "isLineTerminator c = (c = CHR 0x0A \<or> c = CHR 0x0D)"

definition isWhiteSpace :: "char \<Rightarrow> bool" where
  \<comment> \<open>the class \<open>\\s\<close>, also what \<open>trim()\<close> strips: TAB LF VT FF CR SP NBSP\<close>
  "isWhiteSpace c =
     (c = CHR 0x09 \<or> c = CHR 0x0A \<or> c = CHR 0x0B \<or> c = CHR 0x0C \<or> c = CHR 0x0D
      \<or> c = CHR 0x20 \<or> c = CHR 0xA0)"

definition trim :: "string \<Rightarrow> string" where
  "trim s = rev (dropWhile isWhiteSpace (rev (dropWhile isWhiteSpace s)))"

fun splitOn :: "'a \<Rightarrow> 'a list \<Rightarrow> 'a list list" where
  \<comment> \<open>\<open>s.split(d)\<close> for a separator of one character\<close>
  "splitOn d [] = [] # []"
| "splitOn d (c # cs) =
     (if c = d then [] # splitOn d cs
      else (case splitOn d cs of [] \<Rightarrow> [c] # [] | l # ls \<Rightarrow> (c # l) # ls))"

fun startsWith :: "string \<Rightarrow> string \<Rightarrow> bool" where
  \<comment> \<open>\<open>startsWith p s\<close>: the literal \<open>p\<close> matches at the head of \<open>s\<close>\<close>
  "startsWith [] s = True"
| "startsWith (p # ps) [] = False"
| "startsWith (p # ps) (c # cs) = (p = c \<and> startsWith ps cs)"

fun indexOf :: "string \<Rightarrow> string \<Rightarrow> nat option" where
  \<comment> \<open>position of the first occurrence of the literal \<open>pat\<close> in \<open>s\<close>\<close>
  "indexOf pat [] = (if pat = [] then Some 0 else None)"
| "indexOf pat (c # cs) =
     (if startsWith pat (c # cs) then Some 0 else map_option Suc (indexOf pat cs))"

fun getSubstitution :: "string \<Rightarrow> string \<Rightarrow> string \<Rightarrow> string \<Rightarrow> string" where
  \<comment> \<open>ECMAScript GetSubstitution for a match without capture groups: in the replacement
      template, \<open>$$\<close> is a dollar, \<open>$&\<close> the matched text, \<open>$`\<close> the text before the
      match, \<open>$'\<close> the text after it; any other \<open>$\<close> stands for itself.\<close>
  "getSubstitution m b a [] = []"
| "getSubstitution m b a [c] = [c]"
| "getSubstitution m b a (c # d # ds) =
     (if c = CHR ''$'' then
        (if d = CHR ''$'' then CHR ''$'' # getSubstitution m b a ds
         else if d = CHR ''&'' then m @ getSubstitution m b a ds
         else if d = CHR 0x60 then b @ getSubstitution m b a ds
         else if d = CHR 0x27 then a @ getSubstitution m b a ds
         else c # getSubstitution m b a (d # ds))
      else c # getSubstitution m b a (d # ds))"

definition replaceString :: "string \<Rightarrow> string \<Rightarrow> string \<Rightarrow> string" where
  \<comment> \<open>\<open>s.replace(pat, rep)\<close> with a string pattern: the first occurrence only, the
      replacement read as a template\<close>
  "replaceString s pat rep =
     (case indexOf pat s of
        None \<Rightarrow> s
      | Some i \<Rightarrow>
          take i s @ getSubstitution pat (take i s) (drop (i + length pat) s) rep
            @ drop (i + length pat) s)"

fun replaceAllRegex :: "string \<Rightarrow> string \<Rightarrow> string \<Rightarrow> string \<Rightarrow> string" where
  \<comment> \<open>\<open>s.replace(/f/g, t)\<close> for a regular expression that is the literal \<open>f\<close>:
      \<open>replaceAllRegex f t b s\<close> rewrites the rest \<open>s\<close> of a string whose part already
      scanned is \<open>b\<close>; matches are taken left to right and do not overlap\<close>
  "replaceAllRegex f t b [] = (if f = [] then getSubstitution [] b [] t else [])"
| "replaceAllRegex f t b (c # cs) =
     (if f = [] then getSubstitution [] b (c # cs) t @ c # replaceAllRegex f t (b @ [c]) cs
      else if startsWith f (c # cs) then
        getSubstitution f b (drop (length f) (c # cs)) t
          @ replaceAllRegex f t (b @ f) (drop (length f - 1) cs)
      else c # replaceAllRegex f t (b @ [c]) cs)"

definition digitChar :: "nat \<Rightarrow> char" where
  "digitChar d = char_of (48 + d)"

function showNat :: "nat \<Rightarrow> string" where
  \<comment> \<open>a non-negative integer in a template literal: its decimal digits\<close>
  "showNat n = (if n < 10 then [digitChar n] else showNat (n div 10) @ [digitChar (n mod 10)])"
  by pat_completeness auto
termination
  by (relation "measure id") auto

declare showNat.simps [simp del]

section \<open>Heading records\<close>

record heading =
  level :: nat
  text_h :: string
  id_h :: string

subsection \<open>The heading pattern \<open>/^(#{1,6})\\s+(.+)$/\<close>\<close>

definition dotPlusEnd :: "string \<Rightarrow> bool" where
  \<comment> \<open>\<open>(.+)$\<close>: at least one character, none a line terminator, up to the end\<close>
  "dotPlusEnd r = (r \<noteq> [] \<and> list_all (\<lambda>c. \<not> isLineTerminator c) r)"

fun spacesThen :: "nat \<Rightarrow> string \<Rightarrow> string option" where
  \<comment> \<open>\<open>\\s+\<close> is greedy: \<open>spacesThen n s\<close> tries \<open>n\<close> whitespace characters, then
      \<open>n - 1\<close>, down to one, and returns the second group of the first success\<close>
  "spacesThen 0 s = None"
| "spacesThen (Suc n) s =
     (if dotPlusEnd (drop (Suc n) s) then Some (drop (Suc n) s) else spacesThen n s)"

fun hashesThen :: "nat \<Rightarrow> string \<Rightarrow> (nat \<times> string) option" where
  \<comment> \<open>\<open>#{1,6}\<close> is greedy as well: \<open>hashesThen h s\<close> tries \<open>h\<close> marks, then fewer\<close>
  "hashesThen 0 s = None"
| "hashesThen (Suc h) s =
     (case spacesThen (length (takeWhile isWhiteSpace (drop (Suc h) s))) (drop (Suc h) s) of
        Some g \<Rightarrow> Some (Suc h, g)
      | None \<Rightarrow> hashesThen h s)"

definition headingMatch :: "string \<Rightarrow> (nat \<times> string) option" where
  \<comment> \<open>\<open>line.match(...)\<close>: the length of group 1 and group 2\<close>
  "headingMatch line =
     hashesThen (min 6 (length (takeWhile (\<lambda>c. c = CHR ''#'') line))) line"

subsection \<open>extractHeadings\<close>

text \<open>
  \<open>slugify\<close> is a third-party package; the functions that call it take it as the
  parameter \<open>slug\<close>.
\<close>

fun extractLoop :: "(string \<Rightarrow> string) \<Rightarrow> string list \<Rightarrow> heading list \<Rightarrow> heading list" where
  "extractLoop slug [] headings = headings"
| "extractLoop slug (line # lines) headings =
     (case headingMatch line of
        None \<Rightarrow> extractLoop slug lines headings
      | Some (n, g) \<Rightarrow>
          extractLoop slug lines
            (headings @ [\<lparr>level = n, text_h = trim g, id_h = slug (trim g)\<rparr>]))"

definition extractHeadings :: "(string \<Rightarrow> string) \<Rightarrow> string \<Rightarrow> heading list" where
  "extractHeadings slug content = extractLoop slug (splitOn (CHR 0x0A) content) []"

subsection \<open>generateTOC\<close>

datatype js_error = RangeError | ENOENT | EISDIR | EEXIST | ENOTDIR

definition tocEntry :: "heading \<Rightarrow> string" where
  \<open>tocEntry h =
     (let indent = concat (replicate (level h - 1) ''  '');
          displayText = replaceAllRegex ''**'' '''' [] (text_h h)
      in indent @ ''<li class="toc-level-'' @ showNat (level h) @ ''"><a href="#'' @ id_h h
           @ ''">'' @ displayText @ ''</a></li>\<newline>'')\<close>

fun tocLoop :: "heading list \<Rightarrow> string \<Rightarrow> js_error + string" where
  \<comment> \<open>the \<open>forEach\<close>; \<open>"  ".repeat(level - 1)\<close> throws a RangeError on a negative count\<close>
  "tocLoop [] toc = Inr toc"
| "tocLoop (h # hs) toc =
     (if level h = 0 then Inl RangeError else tocLoop hs (toc @ tocEntry h))"

definition tocHeader :: string where
  \<open>tocHeader =
     ''<div class="toc-container">\<newline><h2>Table of Contents</h2>\<newline><ul class="toc">\<newline>''\<close>

definition tocFooter :: string where
  \<open>tocFooter = ''</ul>\<newline></div>\<newline><div class="page-break"></div>\<newline>''\<close>

definition generateTOC :: "heading list \<Rightarrow> js_error + string" where
  "generateTOC headings =
     (case tocLoop headings tocHeader of
        Inl e \<Rightarrow> Inl e
      | Inr toc \<Rightarrow> Inr (toc @ tocFooter))"

subsection \<open>addHeadingIds\<close>

fun lazyDotUntil :: "string \<Rightarrow> string \<Rightarrow> string option" where
  \<comment> \<open>\<open>(.*?)\<close> followed by the literal \<open>cl\<close>: the shortest run of characters other
      than line terminators after which \<open>cl\<close> stands\<close>
  "lazyDotUntil cl [] = (if cl = [] then Some [] else None)"
| "lazyDotUntil cl (c # cs) =
     (if startsWith cl (c # cs) then Some []
      else if isLineTerminator c then None
      else map_option ((#) c) (lazyDotUntil cl cs))"

fun findHeading :: "string \<Rightarrow> string \<Rightarrow> string \<Rightarrow> string \<Rightarrow> (string \<times> string) option" where
  \<comment> \<open>the \<open>while\<close> loop over \<open>regex.exec\<close>: the matches of \<open>op(.*?)cl\<close> from left to
      right, each search starting where the last match ended, up to the first match whose
      trimmed group is \<open>target\<close>; the result is \<open>match[0]\<close> and \<open>match[1]\<close>\<close>
  "findHeading op cl target [] = None"
| "findHeading op cl target (c # cs) =
     (if startsWith op (c # cs) then
        (case lazyDotUntil cl (drop (length op) (c # cs)) of
           Some g \<Rightarrow>
             if trim g = target then Some (op @ g @ cl, g)
             else findHeading op cl target (drop (length op + length g + length cl - 1) cs)
         | None \<Rightarrow> findHeading op cl target cs)
      else findHeading op cl target cs)"

definition addHeadingId :: "string \<Rightarrow> heading \<Rightarrow> string" where
  \<comment> \<open>one round of the \<open>forEach\<close> of \<open>addHeadingIds\<close>\<close>
  \<open>addHeadingId processedHtml h =
     (let tagName = ''h'' @ showNat (level h);
          op = ''<'' @ tagName @ ''>'';
          cl = ''</'' @ tagName @ ''>''
      in case findHeading op cl (trim (text_h h)) processedHtml of
           None \<Rightarrow> processedHtml
         | Some (original, g) \<Rightarrow>
             replaceString processedHtml original
               (''<'' @ tagName @ '' id="'' @ id_h h @ ''">'' @ g @ cl))\<close>

definition addHeadingIds :: "string \<Rightarrow> heading list \<Rightarrow> string" where
  "addHeadingIds html headings = foldl addHeadingId html headings"

subsection \<open>The combined run: headings qualified with the file name\<close>

definition qualifyHeading :: "(string \<Rightarrow> string) \<Rightarrow> string \<Rightarrow> heading \<Rightarrow> heading" where
  \<comment> \<open>the \<open>map\<close> callback of \<open>convertToHtml\<close> and \<open>convertToPdf\<close>; \<open>base\<close> is
      \<open>path.basename(file)\<close>\<close>
  "qualifyHeading slug base h =
     (let t = text_h h @ '' ('' @ base @ '')'' in h\<lparr>text_h := t, id_h := slug t\<rparr>)"

fun combinedHeadings :: "(string \<Rightarrow> string) \<Rightarrow> (string \<times> string) list \<Rightarrow> heading list" where
  \<comment> \<open>\<open>allHeadings\<close> of a combined run over files given as (base name, content)\<close>
  "combinedHeadings slug [] = []"
| "combinedHeadings slug ((base, content) # files) =
     map (qualifyHeading slug base) (extractHeadings slug content) @ combinedHeadings slug files"

section \<open>The heading extractor on full JavaScript strings\<close>

text \<open>
  The regular expression atom \<open>.\<close> and the class \<open>\\s\<close> know characters beyond U+00FF:
  the line terminators U+2028 and U+2029, and the blanks U+1680, U+2000..U+200A, U+202F,
  U+205F, U+3000 and U+FEFF. For statements about every input text the heading extractor is
  embedded a second time, on lists of 16-bit code units, which is what a JavaScript string
  is; the functions are those of the section on heading records, character for character.
\<close>

type_synonym code_unit = "16 word"

definition units :: "string \<Rightarrow> code_unit list" where
  \<comment> \<open>the JavaScript string of a text over U+0000..U+00FF\<close>
  "units s = map of_char s"

definition isLineTerminator16 :: "code_unit \<Rightarrow> bool" where
  \<comment> \<open>what \<open>.\<close> refuses: LF, CR, U+2028, U+2029\<close>
  "isLineTerminator16 c = (c = 0x0A \<or> c = 0x0D \<or> c = 0x2028 \<or> c = 0x2029)"

definition isWhiteSpace16 :: "code_unit \<Rightarrow> bool" where
  \<comment> \<open>the class \<open>\\s\<close>, also what \<open>trim()\<close> strips: the white space and the line
      terminators of ECMAScript\<close>
  "isWhiteSpace16 c =
     (c = 0x09 \<or> c = 0x0A \<or> c = 0x0B \<or> c = 0x0C \<or> c = 0x0D \<or> c = 0x20 \<or> c = 0xA0
      \<or> c = 0x1680 \<or> (0x2000 \<le> c \<and> c \<le> 0x200A) \<or> c = 0x2028 \<or> c = 0x2029
      \<or> c = 0x202F \<or> c = 0x205F \<or> c = 0x3000 \<or> c = 0xFEFF)"

definition trim16 :: "code_unit list \<Rightarrow> code_unit list" where
  "trim16 s = rev (dropWhile isWhiteSpace16 (rev (dropWhile isWhiteSpace16 s)))"

record heading16 =
  level16 :: nat
  text16 :: "code_unit list"
  id16 :: "code_unit list"

definition dotPlusEnd16 :: "code_unit list \<Rightarrow> bool" where
  \<comment> \<open>\<open>(.+)$\<close>\<close>
  "dotPlusEnd16 r = (r \<noteq> [] \<and> list_all (\<lambda>c. \<not> isLineTerminator16 c) r)"

fun spacesThen16 :: "nat \<Rightarrow> code_unit list \<Rightarrow> code_unit list option" where
  \<comment> \<open>\<open>\\s+\<close>, greedy, then \<open>(.+)$\<close>\<close>
  "spacesThen16 0 s = None"
| "spacesThen16 (Suc n) s =
     (if dotPlusEnd16 (drop (Suc n) s) then Some (drop (Suc n) s) else spacesThen16 n s)"

fun hashesThen16 :: "nat \<Rightarrow> code_unit list \<Rightarrow> (nat \<times> code_unit list) option" where
  \<comment> \<open>\<open>#{1,6}\<close>, greedy, then the rest of the pattern\<close>
  "hashesThen16 0 s = None"
| "hashesThen16 (Suc h) s =
     (case spacesThen16 (length (takeWhile isWhiteSpace16 (drop (Suc h) s))) (drop (Suc h) s) of
        Some g \<Rightarrow> Some (Suc h, g)
      | None \<Rightarrow> hashesThen16 h s)"

definition headingMatch16 :: "code_unit list \<Rightarrow> (nat \<times> code_unit list) option" where
  \<comment> \<open>\<open>line.match(/^(#{1,6})\\s+(.+)$/)\<close>: the length of group 1 and group 2\<close>
  "headingMatch16 line =
     hashesThen16 (min 6 (length (takeWhile (\<lambda>c. c = 0x23) line))) line"

fun extractLoop16 ::
  "(code_unit list \<Rightarrow> code_unit list) \<Rightarrow> code_unit list list \<Rightarrow> heading16 list \<Rightarrow> heading16 list" where
  "extractLoop16 slug [] headings = headings"
| "extractLoop16 slug (line # lines) headings =
     (case headingMatch16 line of
        None \<Rightarrow> extractLoop16 slug lines headings
      | Some (n, g) \<Rightarrow>
          extractLoop16 slug lines
            (headings @ [\<lparr>level16 = n, text16 = trim16 g, id16 = slug (trim16 g)\<rparr>]))"

definition extractHeadings16 ::
  "(code_unit list \<Rightarrow> code_unit list) \<Rightarrow> code_unit list \<Rightarrow> heading16 list" where
  "extractHeadings16 slug content = extractLoop16 slug (splitOn 0x0A content) []"

section \<open>The anchor identifier generator\<close>

definition isAlnum :: "char \<Rightarrow> bool" where
  "isAlnum c =
     (let n = (of_char c :: nat)
      in (48 \<le> n \<and> n \<le> 57) \<or> (65 \<le> n \<and> n \<le> 90) \<or> (97 \<le> n \<and> n \<le> 122))"

definition asciiLower :: "char \<Rightarrow> char" where
  "asciiLower c =
     (let n = (of_char c :: nat) in if 65 \<le> n \<and> n \<le> 90 then char_of (n + 32) else c)"

fun hyphenate :: "bool \<Rightarrow> string \<Rightarrow> string" where
  \<comment> \<open>Modelled from the spec: the inner step of \<open>slugify\<close> below. \<open>hyphenate p s\<close> gives
      letters and digits in lower case and every run of other characters as one hyphen;
      \<open>p\<close> says that the run before \<open>s\<close> has its hyphen already\<close>
  "hyphenate p [] = []"
| "hyphenate p (c # cs) =
     (if isAlnum c then asciiLower c # hyphenate False cs
      else if p then hyphenate True cs
      else CHR ''-'' # hyphenate True cs)"

definition slugify :: "string \<Rightarrow> string" where
  \<comment> \<open>Modelled from the spec: the npm package \<open>slugify\<close>, which the program calls with
      \<open>lower\<close>, \<open>strict\<close> and the replacement \<open>-\<close>, is not part of the sources. The
      spec describes its result as an "identifier consisting of lowercase ASCII letters,
      digits, and hyphens; non-alphanumeric runs collapse to a single hyphen;
      leading/trailing hyphens trimmed".\<close>
  "slugify s =
     rev (dropWhile (\<lambda>c. c = CHR ''-'') (rev (dropWhile (\<lambda>c. c = CHR ''-'') (hyphenate False s))))"

section \<open>The path remapper\<close>

text \<open>
  Every pattern of the remapping list is a regular expression with the flag \<open>g\<close> that
  matches one literal: the initial \<open>/\\/assets\\//g\<close>, and for each pair of the option
  \<open>--remap\<close> the escaped \<open>from\<close> string. A rule is kept as that literal.
\<close>

record pathMapping =
  from_m :: string
  to_m :: string

record imagePathConfig =
  enableRemapping :: bool
  pathMappings :: "pathMapping list"
  handleExternalUrls :: bool

definition initialConfig :: imagePathConfig where
  "initialConfig =
     \<lparr>enableRemapping = True,
      pathMappings = [\<lparr>from_m = ''/assets/'', to_m = ''/_assets/''\<rparr>],
      handleExternalUrls = True\<rparr>"

definition remapPair :: "string \<Rightarrow> pathMapping list" where
  \<comment> \<open>one pair of \<open>--remap\<close>: \<open>const [from, to] = pair.split(":")\<close>, kept when both
      are non-empty\<close>
  "remapPair pair =
     (case splitOn (CHR '':'') pair of
        f # t # _ \<Rightarrow> (if f \<noteq> [] \<and> t \<noteq> [] then [\<lparr>from_m = f, to_m = t\<rparr>] else [])
      | _ \<Rightarrow> [])"

definition configFromOptions :: "string \<Rightarrow> imagePathConfig" where
  \<comment> \<open>\<open>imagePathConfig\<close> once the option \<open>--remap\<close> has been read\<close>
  "configFromOptions remap =
     (if remap = [] then initialConfig
      else initialConfig\<lparr>pathMappings := concat (map remapPair (splitOn (CHR '','') remap))\<rparr>)"

definition isExternalUrl :: "string \<Rightarrow> bool" where
  \<comment> \<open>\<open>imagePath.match(/^https?:\\/\\//i)\<close>\<close>
  "isExternalUrl p =
     (let l = map asciiLower p in startsWith ''http://'' l \<or> startsWith ''https://'' l)"

record remappedImage =
  path_r :: string
  isExternal :: bool

definition applyMapping :: "string \<Rightarrow> pathMapping \<Rightarrow> string" where
  \<comment> \<open>\<open>remappedPath.replace(mapping.from, mapping.to)\<close>\<close>
  "applyMapping remappedPath m = replaceAllRegex (from_m m) (to_m m) [] remappedPath"

definition remapImagePath :: "imagePathConfig \<Rightarrow> string \<Rightarrow> remappedImage" where
  "remapImagePath cfg imagePath =
     (if isExternalUrl imagePath then \<lparr>path_r = imagePath, isExternal = True\<rparr>
      else
        \<lparr>path_r =
           (if enableRemapping cfg then foldl applyMapping imagePath (pathMappings cfg)
            else imagePath),
         isExternal = False\<rparr>)"

section \<open>The platform: paths, files, console\<close>

text \<open>
  The functions of Node's \<open>path\<close> module are parameters of the model. The file system
  maps a path to a file with its bytes or to a directory; the operations below are the
  ones the program calls, with the errors they throw.
\<close>

record node_path =
  path_resolve :: "string \<Rightarrow> string \<Rightarrow> string"
  path_dirname :: "string \<Rightarrow> string"
  path_basename :: "string \<Rightarrow> string"
  path_extname :: "string \<Rightarrow> string"
  path_join :: "string \<Rightarrow> string \<Rightarrow> string"

type_synonym byte = "8 word"

datatype node = File "byte list" | Dir

type_synonym filesystem = "string \<Rightarrow> node option"

record world =
  fs :: filesystem
  console :: "string list"

definition consoleLog :: "world \<Rightarrow> string \<Rightarrow> world" where
  "consoleLog w line = w\<lparr>console := console w @ [line]\<rparr>"

definition existsSync :: "filesystem \<Rightarrow> string \<Rightarrow> bool" where
  "existsSync f p = (f p \<noteq> None)"

definition mkdirSync :: "filesystem \<Rightarrow> string \<Rightarrow> js_error + filesystem" where
  \<comment> \<open>with \<open>recursive: true\<close>: a directory that is there already is no error\<close>
  "mkdirSync f p = (case f p of Some (File _) \<Rightarrow> Inl EEXIST | _ \<Rightarrow> Inr (f(p \<mapsto> Dir)))"

definition copyFileSync :: "filesystem \<Rightarrow> string \<Rightarrow> string \<Rightarrow> js_error + filesystem" where
  "copyFileSync f source dest =
     (case f source of
        None \<Rightarrow> Inl ENOENT
      | Some Dir \<Rightarrow> Inl EISDIR
      | Some (File bytes) \<Rightarrow>
          (case f dest of Some Dir \<Rightarrow> Inl EISDIR | _ \<Rightarrow> Inr (f(dest \<mapsto> File bytes))))"

definition readFileSync :: "filesystem \<Rightarrow> string \<Rightarrow> js_error + byte list" where
  "readFileSync f p =
     (case f p of None \<Rightarrow> Inl ENOENT | Some Dir \<Rightarrow> Inl EISDIR | Some (File bytes) \<Rightarrow> Inr bytes)"

section \<open>Linked mode: copyImages\<close>

definition stripDotSlash :: "string \<Rightarrow> string" where
  \<comment> \<open>\<open>.replace(/^\\.\\//, "")\<close>\<close>
  "stripDotSlash s = (if startsWith ''./'' s then drop 2 s else s)"

definition copyImage ::
  "node_path \<Rightarrow> imagePathConfig \<Rightarrow> string \<Rightarrow> string \<Rightarrow> world \<Rightarrow> string \<Rightarrow> js_error + (string \<times> world)" where
  \<comment> \<open>the callback of \<open>imagePaths.map\<close>: the new reference and the world after it\<close>
  "copyImage P cfg sourceDir imagesOutputDir w imagePath =
     (if isExternalUrl imagePath then
        Inr (imagePath, consoleLog w (''External URL detected, keeping as-is: '' @ imagePath))
      else
        let remapped = remapImagePath cfg imagePath in
        if isExternal remapped then Inr (path_r remapped, w)
        else
          let pathToResolve = path_r remapped;
              resolvedImagePath = path_resolve P sourceDir pathToResolve
          in
          if existsSync (fs w) resolvedImagePath then
            let relativeDir = stripDotSlash (path_dirname P pathToResolve);
                nestedOutputDir = path_join P imagesOutputDir relativeDir
            in
            case (if relativeDir \<noteq> ''.'' \<and> \<not> existsSync (fs w) nestedOutputDir
                  then mkdirSync (fs w) nestedOutputDir else Inr (fs w)) of
              Inl e \<Rightarrow> Inl e
            | Inr f1 \<Rightarrow>
                let fileName = path_basename P resolvedImagePath;
                    finalOutputDir = (if relativeDir = ''.'' then imagesOutputDir else nestedOutputDir);
                    outputPath = path_join P finalOutputDir fileName
                in
                (case copyFileSync f1 resolvedImagePath outputPath of
                   Inl e \<Rightarrow> Inl e
                 | Inr f2 \<Rightarrow>
                     Inr (if relativeDir = ''.'' then ''images/'' @ fileName
                          else ''images/'' @ relativeDir @ ''/'' @ fileName,
                          w\<lparr>fs := f2\<rparr>))
          else
            Inr (imagePath, consoleLog w (''Warning: Image not found: '' @ resolvedImagePath)))"

fun copyLoop ::
  "node_path \<Rightarrow> imagePathConfig \<Rightarrow> string \<Rightarrow> string \<Rightarrow> world \<Rightarrow> string list \<Rightarrow> js_error + (string list \<times> world)" where
  \<comment> \<open>\<open>imagePaths.map\<close>, in order; an error thrown by one call ends it\<close>
  "copyLoop P cfg sourceDir imagesOutputDir w [] = Inr ([], w)"
| "copyLoop P cfg sourceDir imagesOutputDir w (p # ps) =
     (case copyImage P cfg sourceDir imagesOutputDir w p of
        Inl e \<Rightarrow> Inl e
      | Inr (r, w1) \<Rightarrow>
          (case copyLoop P cfg sourceDir imagesOutputDir w1 ps of
             Inl e \<Rightarrow> Inl e
           | Inr (rs, w2) \<Rightarrow> Inr (r # rs, w2)))"

definition copyImages ::
  "node_path \<Rightarrow> imagePathConfig \<Rightarrow> string \<Rightarrow> string list \<Rightarrow> string \<Rightarrow> world \<Rightarrow> js_error + (string list \<times> world)" where
  "copyImages P cfg sourceFilePath imagePaths outputDir w =
     (let sourceDir = path_dirname P sourceFilePath;
          imagesOutputDir = path_join P outputDir ''images''
      in
      case (if \<not> existsSync (fs w) imagesOutputDir then mkdirSync (fs w) imagesOutputDir
            else Inr (fs w)) of
        Inl e \<Rightarrow> Inl e
      | Inr f1 \<Rightarrow> copyLoop P cfg sourceDir imagesOutputDir (w\<lparr>fs := f1\<rparr>) imagePaths)"

section \<open>Embedded mode: convertImagesToBase64\<close>

subsection \<open>Base64\<close>

definition b64chars :: string where
  "b64chars = ''ABCDEFGHIJKLMNOPQRSTUVWXYZabcdefghijklmnopqrstuvwxyz0123456789+/''"

definition b64char :: "nat \<Rightarrow> char" where
  \<comment> \<open>the character of a 6-bit value; every call below has \<open>n < 64\<close>\<close>
  "b64char n = b64chars ! n"

fun toBase64 :: "byte list \<Rightarrow> string" where
  \<comment> \<open>\<open>imageBuffer.toString("base64")\<close>: three bytes give four characters, the last
      group is padded with \<open>=\<close>\<close>
  "toBase64 [] = []"
| "toBase64 [a] =
     (let x = unat a in [b64char (x div 4), b64char ((x mod 4) * 16), CHR ''='', CHR ''=''])"
| "toBase64 [a, b] =
     (let x = unat a; y = unat b
      in [b64char (x div 4), b64char ((x mod 4) * 16 + y div 16), b64char ((y mod 16) * 4),
          CHR ''=''])"
| "toBase64 (a # b # c # rest) =
     (let x = unat a; y = unat b; z = unat c
      in [b64char (x div 4), b64char ((x mod 4) * 16 + y div 16),
          b64char ((y mod 16) * 4 + z div 64), b64char (z mod 64)] @ toBase64 rest)"

fun b64index :: "char \<Rightarrow> string \<Rightarrow> nat option" where
  "b64index c [] = None"
| "b64index c (d # ds) = (if c = d then Some 0 else map_option Suc (b64index c ds))"

definition b64val :: "char \<Rightarrow> nat option" where
  "b64val c = b64index c b64chars"

fun fromBase64 :: "string \<Rightarrow> byte list option" where
  \<comment> \<open>decoding, as the reader of a \<open>data:\<close> URI does it: four characters give three
      bytes; padding is accepted in the last group only\<close>
  "fromBase64 [] = Some []"
| "fromBase64 (c1 # c2 # c3 # c4 # rest) =
     (case (b64val c1, b64val c2) of
        (Some v1, Some v2) \<Rightarrow>
          if c3 = CHR ''='' \<and> c4 = CHR ''='' \<and> rest = [] then
            Some [of_nat (v1 * 4 + v2 div 16)]
          else
            (case b64val c3 of
               Some v3 \<Rightarrow>
                 if c4 = CHR ''='' \<and> rest = [] then
                   Some [of_nat (v1 * 4 + v2 div 16), of_nat ((v2 mod 16) * 16 + v3 div 4)]
                 else
                   (case (b64val c4, fromBase64 rest) of
                      (Some v4, Some bytes) \<Rightarrow>
                        Some (of_nat (v1 * 4 + v2 div 16) # of_nat ((v2 mod 16) * 16 + v3 div 4)
                              # of_nat ((v3 mod 4) * 64 + v4) # bytes)
                    | _ \<Rightarrow> None)
             | None \<Rightarrow> None)
      | _ \<Rightarrow> None)"
| "fromBase64 _ = None"

subsection \<open>The MIME type of an extension\<close>

definition toLowerCaseChar :: "char \<Rightarrow> char" where
  \<comment> \<open>\<open>toLowerCase()\<close> on one code unit of U+0000..U+00FF\<close>
  "toLowerCaseChar c =
     (let n = (of_char c :: nat)
      in if (65 \<le> n \<and> n \<le> 90) \<or> (192 \<le> n \<and> n \<le> 222 \<and> n \<noteq> 215) then char_of (n + 32)
         else c)"

definition mimeTypeOf :: "string \<Rightarrow> string" where
  \<comment> \<open>the \<open>switch (ext)\<close>\<close>
  "mimeTypeOf ext =
     (if ext = ''jpg'' \<or> ext = ''jpeg'' then ''image/jpeg''
      else if ext = ''png'' then ''image/png''
      else if ext = ''gif'' then ''image/gif''
      else if ext = ''svg'' then ''image/svg+xml''
      else if ext = ''webp'' then ''image/webp''
      else ''image/'' @ ext)"

subsection \<open>The image pattern \<open>/<img[^>]+src="([^"]+)"[^>]*>/g\<close>\<close>

record imgTag =
  fullTag :: string
  src :: string

definition notGt :: "char \<Rightarrow> bool" where
  "notGt c = (c \<noteq> CHR ''>'')"

definition notQuote :: "char \<Rightarrow> bool" where
  "notQuote c = (c \<noteq> CHR 0x22)"

fun imgAttempt :: "nat \<Rightarrow> string \<Rightarrow> imgTag option" where
  \<comment> \<open>\<open>s\<close> is what follows \<open><img\<close>. \<open>[^>]+\<close> is greedy: \<open>imgAttempt k s\<close> lets it take
      \<open>k\<close> characters, then \<open>k - 1\<close>, down to one. After \<open>src="\<close> the value \<open>[^"]+\<close> runs
      to the next quote and \<open>[^>]*\<close> to the next \<open>>\<close>; both must be there.\<close>
  "imgAttempt 0 s = None"
| \<open>imgAttempt (Suc k) s =
     (let r = drop (Suc k) s;
          v = takeWhile notQuote (drop 5 r);
          t = drop (5 + length v) r;
          u = takeWhile notGt (drop 1 t)
      in if startsWith ''src="'' r \<and> v \<noteq> [] \<and> t \<noteq> [] \<and> drop (1 + length u) t \<noteq> [] then
           Some \<lparr>fullTag = ''<img'' @ take (Suc k) s @ ''src="'' @ v @ [CHR 0x22] @ u @ ''>'',
                 src = v\<rparr>
         else imgAttempt k s)\<close>

fun collectImgTags :: "string \<Rightarrow> imgTag list" where
  \<comment> \<open>the first \<open>while\<close> loop: all matches, each search starting where the last match
      ended\<close>
  "collectImgTags [] = []"
| "collectImgTags (c # cs) =
     (if startsWith ''<img'' (c # cs) then
        (case imgAttempt (length (takeWhile notGt (drop 3 cs))) (drop 3 cs) of
           Some img \<Rightarrow> img # collectImgTags (drop (length (fullTag img) - 1) cs)
         | None \<Rightarrow> collectImgTags cs)
      else collectImgTags cs)"

subsection \<open>The loop over the collected tags\<close>

definition dataUriOf :: "string \<Rightarrow> byte list \<Rightarrow> string" where
  "dataUriOf mimeType imageBuffer = ''data:'' @ mimeType @ '';base64,'' @ toBase64 imageBuffer"

definition embedImage ::
  "node_path \<Rightarrow> imagePathConfig \<Rightarrow> string \<Rightarrow> string \<times> world \<Rightarrow> imgTag \<Rightarrow> js_error + (string \<times> world)" where
  \<comment> \<open>one round of \<open>for (const img of imgTags)\<close> on \<open>processedHtml\<close> and the world\<close>
  \<open>embedImage P cfg sourceDir st img =
     (let processedHtml = fst st; w = snd st; imgSrc = src img in
      if isExternalUrl imgSrc then
        Inr (processedHtml, consoleLog w (''External URL image detected: '' @ imgSrc))
      else
        let remapped = remapImagePath cfg imgSrc in
        if isExternal remapped then Inr (processedHtml, w)
        else
          let resolvedImagePath = path_resolve P sourceDir (path_r remapped) in
          if existsSync (fs w) resolvedImagePath then
            let ext = map toLowerCaseChar (drop 1 (path_extname P resolvedImagePath));
                mimeType = mimeTypeOf ext
            in
            case readFileSync (fs w) resolvedImagePath of
              Inl e \<Rightarrow> Inl e
            | Inr imageBuffer \<Rightarrow>
                let dataUri = dataUriOf mimeType imageBuffer;
                    newImgTag =
                      replaceString (fullTag img) (''src="'' @ imgSrc @ ''"'')
                        (''src="'' @ dataUri @ ''"'')
                in Inr (replaceString processedHtml (fullTag img) newImgTag,
                        consoleLog w (''Embedded image: '' @ path_basename P resolvedImagePath))
          else
            Inr (processedHtml,
                 consoleLog w (''Warning: Image not found for embedding: '' @ resolvedImagePath)))\<close>

fun embedLoop ::
  "node_path \<Rightarrow> imagePathConfig \<Rightarrow> string \<Rightarrow> string \<times> world \<Rightarrow> imgTag list \<Rightarrow> js_error + (string \<times> world)" where
  "embedLoop P cfg sourceDir st [] = Inr st"
| "embedLoop P cfg sourceDir st (img # imgs) =
     (case embedImage P cfg sourceDir st img of
        Inl e \<Rightarrow> Inl e
      | Inr st1 \<Rightarrow> embedLoop P cfg sourceDir st1 imgs)"

definition convertImagesToBase64 ::
  "node_path \<Rightarrow> imagePathConfig \<Rightarrow> string \<Rightarrow> string \<Rightarrow> world \<Rightarrow> js_error + (string \<times> world)" where
  "convertImagesToBase64 P cfg sourceFilePath html w =
     embedLoop P cfg (path_dirname P sourceFilePath) (html, w) (collectImgTags html)"

section \<open>The command line: what the run does with its options\<close>

record options =
  directory :: string
  format :: string
  single :: bool
  output_o :: string
  paper :: string
  remap :: string

datatype run =
  Exit nat
  | ConvertToHtml "string list" bool string
  | ConvertToPdf "string list" bool string
  | InvalidFormat

definition validPaperSizes :: "string list" where
  "validPaperSizes = [''A4'', ''Letter'', ''Legal'']"

definition main :: "options \<Rightarrow> string list \<Rightarrow> run" where
  \<comment> \<open>the top level after \<open>traverseDirectory\<close> has returned \<open>markdownFiles\<close>:
      \<open>process.exit(1)\<close> ends the program at once; otherwise one of the two converters is
      called, or neither for an unknown format (the program then ends with status 0)\<close>
  "main opts markdownFiles =
     (if length markdownFiles = 0 then Exit 1
      else if format opts = ''pdf'' \<and> paper opts \<notin> set validPaperSizes then Exit 1
      else if format opts = ''html'' then ConvertToHtml markdownFiles (single opts) (output_o opts)
      else if format opts = ''pdf'' then ConvertToPdf markdownFiles (single opts) (output_o opts)
      else InvalidFormat)"

definition unitsProcessed :: "run \<Rightarrow> nat" where
  \<comment> \<open>the number of input documents handed to a converter\<close>
  "unitsProcessed r =
     (case r of
        ConvertToHtml files _ _ \<Rightarrow> length files
      | ConvertToPdf files _ _ \<Rightarrow> length files
      | _ \<Rightarrow> 0)"

subsection \<open>The whole program: traversal, guards, converter\<close>







section \<open>Properties: the vocabulary of the statements\<close>

text \<open>
  A line of the input is described by its count of leading marks and by what follows
  them: \<open>isHeadingLine\<close> asks for 1 to 6 marks, then one or more whitespace characters,
  then at least one character, none of the characters left being a line terminator.
\<close>

definition hashCount :: "string \<Rightarrow> nat" where
  "hashCount line = length (takeWhile (\<lambda>c. c = CHR ''#'') line)"

definition isHeadingLine :: "string \<Rightarrow> bool" where
  "isHeadingLine line =
     (let n = hashCount line; rest = drop n line
      in 1 \<le> n \<and> n \<le> 6 \<and>
         (\<exists>k \<in> {1..<length rest}.
            list_all isWhiteSpace (take k rest) \<and>
            list_all (\<lambda>c. \<not> isLineTerminator c) (drop k rest)))"

definition headingOfLine :: "(string \<Rightarrow> string) \<Rightarrow> string \<Rightarrow> heading list" where
  "headingOfLine slug line =
     (if isHeadingLine line then
        [\<lparr>level = hashCount line, text_h = trim (drop (hashCount line) line),
          id_h = slug (trim (drop (hashCount line) line))\<rparr>]
      else [])"

text \<open>
  The same vocabulary for lines of code units. \<open>claimedHeadingLine16\<close> is the shape the
  claim names: 1 to 6 marks followed by a whitespace character. \<open>isHeadingLine16\<close> is the
  shape the pattern accepts: 1 to 6 marks, then one or more whitespace characters, then one
  or more characters none of which is a line terminator.
\<close>

definition hashCount16 :: "code_unit list \<Rightarrow> nat" where
  "hashCount16 line = length (takeWhile (\<lambda>c. c = 0x23) line)"

definition claimedHeadingLine16 :: "code_unit list \<Rightarrow> bool" where
  "claimedHeadingLine16 line =
     (let n = hashCount16 line; rest = drop n line
      in 1 \<le> n \<and> n \<le> 6 \<and> rest \<noteq> [] \<and> isWhiteSpace16 (hd rest))"

definition isHeadingLine16 :: "code_unit list \<Rightarrow> bool" where
  "isHeadingLine16 line =
     (let n = hashCount16 line; rest = drop n line
      in 1 \<le> n \<and> n \<le> 6 \<and>
         (\<exists>k \<in> {1..<length rest}.
            list_all isWhiteSpace16 (take k rest) \<and>
            list_all (\<lambda>c. \<not> isLineTerminator16 c) (drop k rest)))"

definition headingOfLine16 ::
  "(code_unit list \<Rightarrow> code_unit list) \<Rightarrow> code_unit list \<Rightarrow> heading16 list" where
  "headingOfLine16 slug line =
     (if isHeadingLine16 line then
        [\<lparr>level16 = hashCount16 line, text16 = trim16 (drop (hashCount16 line) line),
          id16 = slug (trim16 (drop (hashCount16 line) line))\<rparr>]
      else [])"

text \<open>
  The display text of an entry, in the words of the specification: the text with every
  pair \<open>**\<close> taken out, from left to right.
\<close>

fun removeStars :: "string \<Rightarrow> string" where
  "removeStars [] = []"
| "removeStars [c] = [c]"
| "removeStars (c # d # cs) =
     (if c = CHR ''*'' \<and> d = CHR ''*'' then removeStars cs else c # removeStars (d # cs))"

text \<open>
  The path a local reference is looked up at, and the path its file is copied to in linked
  mode.
\<close>

definition resolvedPath :: "node_path \<Rightarrow> imagePathConfig \<Rightarrow> string \<Rightarrow> string \<Rightarrow> string" where
  "resolvedPath P cfg sourceDir p = path_resolve P sourceDir (path_r (remapImagePath cfg p))"

definition copyTarget :: "node_path \<Rightarrow> imagePathConfig \<Rightarrow> string \<Rightarrow> string \<Rightarrow> string \<Rightarrow> string" where
  "copyTarget P cfg sourceDir imagesOutputDir p =
     (let relativeDir = stripDotSlash (path_dirname P (path_r (remapImagePath cfg p)))
      in path_join P
           (if relativeDir = ''.'' then imagesOutputDir else path_join P imagesOutputDir relativeDir)
           (path_basename P (resolvedPath P cfg sourceDir p)))"

text \<open>
  For the examples: path functions that agree with Node's on the plain paths used there
  (no \<open>..\<close>, no trailing or doubled separators).
\<close>

definition examplePaths :: node_path where
  "examplePaths =
     \<lparr>path_resolve = (\<lambda>d p. if startsWith ''/'' p then p else d @ ''/'' @ stripDotSlash p),
      path_dirname =
        (\<lambda>p. if CHR ''/'' \<in> set p then rev (drop 1 (dropWhile (\<lambda>c. c \<noteq> CHR ''/'') (rev p)))
             else ''.''),
      path_basename = (\<lambda>p. rev (takeWhile (\<lambda>c. c \<noteq> CHR ''/'') (rev p))),
      path_extname =
        (\<lambda>p. let b = rev (takeWhile (\<lambda>c. c \<noteq> CHR ''/'') (rev p))
             in if CHR ''.'' \<in> set b then CHR ''.'' # rev (takeWhile (\<lambda>c. c \<noteq> CHR ''.'') (rev b))
                else []),
      path_join = (\<lambda>a b. a @ ''/'' @ b)\<rparr>"



section \<open>Literal search and replacement\<close>

lemma startsWith_take: "startsWith p s \<longleftrightarrow> take (length p) s = p \<and> length p \<le> length s"
proof (induction p s rule: startsWith.induct)
  case (1 s)
  then show ?case by simp
next
  case (2 p ps)
  then show ?case by simp
next
  case (3 p ps c cs)
  then show ?case by auto
qed

lemma startsWith_append: "startsWith p s \<longleftrightarrow> (\<exists>r. s = p @ r)"
  by (induction p s rule: startsWith.induct) auto

lemma indexOf_startsWith: "startsWith pat s \<Longrightarrow> indexOf pat s = Some 0"
  by (cases s; cases pat) auto

lemma indexOf_occurs: "s = pre @ pat @ post \<Longrightarrow> \<exists>i. indexOf pat s = Some i \<and> i \<le> length pre"
proof (induction pre arbitrary: s)
  case Nil
  then have "startsWith pat s" by (simp add: startsWith_append)
  then show ?case by (simp add: indexOf_startsWith)
next
  case (Cons a pre)
  then obtain s' where s': "s = a # s'" "s' = pre @ pat @ post" by simp
  from Cons.IH [OF s'(2)] obtain i where "indexOf pat s' = Some i" "i \<le> length pre" by blast
  then show ?case unfolding s'(1) by auto
qed

lemma indexOf_Some: "indexOf pat s = Some i \<Longrightarrow> take (length pat) (drop i s) = pat \<and> i + length pat \<le> length s"
proof (induction s arbitrary: i)
  case Nil
  then show ?case by (auto split: if_splits)
next
  case (Cons c cs)
  show ?case
  proof (cases "startsWith pat (c # cs)")
    case True
    with Cons.prems have "i = 0" by simp
    with True show ?thesis by (simp add: startsWith_take)
  next
    case False
    with Cons.prems obtain j where "indexOf pat cs = Some j" "i = Suc j" by auto
    with Cons.IH [of j] show ?thesis by simp
  qed
qed

lemma getSubstitution_plain: "CHR ''$'' \<notin> set t \<Longrightarrow> getSubstitution m b a t = t"
  by (induction m b a t rule: getSubstitution.induct) auto

lemma replaceString_plain:
  "indexOf pat s = Some i \<Longrightarrow> CHR ''$'' \<notin> set rep \<Longrightarrow>
   replaceString s pat rep = take i s @ rep @ drop (i + length pat) s"
  by (simp add: replaceString_def getSubstitution_plain)

section \<open>The heading extractor\<close>

lemma extractLoop_append:
  "extractLoop slug ls acc =
     acc @ concat (map (\<lambda>l. case headingMatch l of None \<Rightarrow> []
        | Some (n, g) \<Rightarrow> [\<lparr>level = n, text_h = trim g, id_h = slug (trim g)\<rparr>]) ls)"
  by (induction ls arbitrary: acc) (auto split: option.splits)

lemma spacesThen_None_iff:
  "spacesThen n s = None \<longleftrightarrow> (\<forall>k. 1 \<le> k \<and> k \<le> n \<longrightarrow> \<not> dotPlusEnd (drop k s))"
proof (induction n)
  case 0
  then show ?case by simp
next
  case (Suc n)
  show ?case
  proof (cases "dotPlusEnd (drop (Suc n) s)")
    case True
    then show ?thesis by auto
  next
    case False
    have "(\<forall>k. 1 \<le> k \<and> k \<le> Suc n \<longrightarrow> \<not> dotPlusEnd (drop k s))
          \<longleftrightarrow> (\<forall>k. 1 \<le> k \<and> k \<le> n \<longrightarrow> \<not> dotPlusEnd (drop k s))"
      using False by (auto simp: le_Suc_eq)
    with False Suc show ?thesis by simp
  qed
qed

lemma spacesThen_Some:
  "spacesThen n s = Some g \<Longrightarrow> \<exists>k. 1 \<le> k \<and> k \<le> n \<and> g = drop k s \<and> dotPlusEnd g"
  by (induction n) (auto split: if_splits intro: le_SucI)

lemma hashesThen_below:
  "h < hashCount line \<Longrightarrow> hashesThen h line = None"
proof (induction h)
  case 0
  then show ?case by simp
next
  case (Suc h)
  from Suc.prems have lt: "Suc h < length (takeWhile (\<lambda>c. c = CHR ''#'') line)"
    by (simp add: hashCount_def)
  then have "Suc h < length line"
    using length_takeWhile_le [of "\<lambda>c. c = CHR ''#''" line] by linarith
  moreover have "line ! Suc h = CHR ''#''"
  proof -
    let ?t = "takeWhile (\<lambda>c. c = CHR ''#'') line"
    have mem: "?t ! Suc h \<in> set ?t" using lt by (rule nth_mem)
    have "?t ! Suc h = CHR ''#''" using set_takeWhileD [OF mem] by blast
    then show ?thesis using takeWhile_nth [OF lt] by simp
  qed
  ultimately have "drop (Suc h) line = CHR ''#'' # drop (Suc (Suc h)) line"
    by (simp add: Cons_nth_drop_Suc [symmetric])
  then have "takeWhile isWhiteSpace (drop (Suc h) line) = []"
    by (simp add: isWhiteSpace_def)
  moreover have "hashesThen h line = None"
    using Suc by simp
  ultimately show ?case by simp
qed

lemma headingMatch_eq:
  "headingMatch line =
     (if 1 \<le> hashCount line \<and> hashCount line \<le> 6 then
        map_option (Pair (hashCount line))
          (spacesThen (length (takeWhile isWhiteSpace (drop (hashCount line) line)))
             (drop (hashCount line) line))
      else None)"
proof (cases "hashCount line")
  case 0
  then show ?thesis by (simp add: headingMatch_def hashCount_def)
next
  case (Suc c)
  show ?thesis
  proof (cases "Suc c \<le> 6")
    case True
    have n: "hashesThen c line = None"
      using Suc by (simp add: hashesThen_below)
    have "min 6 (hashCount line) = Suc c"
      using True Suc by simp
    then have "headingMatch line = hashesThen (Suc c) line"
      by (simp add: headingMatch_def hashCount_def)
    also have "\<dots> = map_option (Pair (Suc c))
          (spacesThen (length (takeWhile isWhiteSpace (drop (Suc c) line))) (drop (Suc c) line))"
      using n by (simp split: option.splits)
    finally show ?thesis
      using True Suc by simp
  next
    case False
    then have "hashesThen 6 line = None"
      using Suc by (intro hashesThen_below) simp
    moreover have "min 6 (hashCount line) = 6"
      using False Suc by simp
    ultimately have "headingMatch line = None"
      by (simp add: headingMatch_def hashCount_def)
    then show ?thesis
      using False Suc by simp
  qed
qed

lemma le_takeWhile_iff:
  "k \<le> length (takeWhile P s) \<longleftrightarrow> k \<le> length s \<and> list_all P (take k s)"
proof (induction s arbitrary: k)
  case Nil
  then show ?case by simp
next
  case (Cons a s)
  then show ?case by (cases k) auto
qed

lemma trim_drop_spaces:
  "k \<le> length (takeWhile isWhiteSpace s) \<Longrightarrow> trim (drop k s) = trim s"
proof -
  assume k: "k \<le> length (takeWhile isWhiteSpace s)"
  have "s = takeWhile isWhiteSpace s @ dropWhile isWhiteSpace s" by simp
  let ?t = "takeWhile isWhiteSpace s"
  have "drop k (?t @ dropWhile isWhiteSpace s)
          = drop k ?t @ drop (k - length ?t) (dropWhile isWhiteSpace s)"
    by (rule drop_append)
  then have "drop k s = drop k ?t @ dropWhile isWhiteSpace s"
    using k by simp
  moreover have "\<forall>x\<in>set (drop k ?t). isWhiteSpace x"
    by (auto dest: in_set_dropD set_takeWhileD)
  ultimately have "dropWhile isWhiteSpace (drop k s) = dropWhile isWhiteSpace s"
    by (simp add: dropWhile_append2)
  then show ?thesis by (simp add: trim_def)
qed

lemma isHeadingLine_iff:
  "isHeadingLine line \<longleftrightarrow>
     1 \<le> hashCount line \<and> hashCount line \<le> 6 \<and>
     spacesThen (length (takeWhile isWhiteSpace (drop (hashCount line) line)))
       (drop (hashCount line) line) \<noteq> None"
proof -
  let ?r = "drop (hashCount line) line"
  have "(\<exists>k \<in> {1..<length ?r}. list_all isWhiteSpace (take k ?r) \<and>
            list_all (\<lambda>c. \<not> isLineTerminator c) (drop k ?r))
        \<longleftrightarrow> (\<exists>k. 1 \<le> k \<and> k \<le> length (takeWhile isWhiteSpace ?r) \<and> dotPlusEnd (drop k ?r))"
    (is "?A \<longleftrightarrow> ?B")
  proof
    assume ?A
    then obtain k where "1 \<le> k" "k < length ?r" "list_all isWhiteSpace (take k ?r)"
      "list_all (\<lambda>c. \<not> isLineTerminator c) (drop k ?r)" by auto
    then have "1 \<le> k \<and> k \<le> length (takeWhile isWhiteSpace ?r) \<and> dotPlusEnd (drop k ?r)"
      by (simp add: le_takeWhile_iff dotPlusEnd_def)
    then show ?B by blast
  next
    assume ?B
    then obtain k where k: "1 \<le> k" "k \<le> length (takeWhile isWhiteSpace ?r)" "dotPlusEnd (drop k ?r)"
      by blast
    then have "k < length ?r" by (auto simp: dotPlusEnd_def)
    with k show ?A by (auto simp: le_takeWhile_iff dotPlusEnd_def)
  qed
  then show ?thesis
    unfolding isHeadingLine_def Let_def spacesThen_None_iff by blast
qed

lemma headingOfLine_eq:
  "(case headingMatch l of None \<Rightarrow> []
        | Some (n, g) \<Rightarrow> [\<lparr>level = n, text_h = trim g, id_h = slug (trim g)\<rparr>]) = headingOfLine slug l"
proof (cases "isHeadingLine l")
  case False
  then have "headingMatch l = None"
    unfolding headingMatch_eq isHeadingLine_iff by auto
  with False show ?thesis by (simp add: headingOfLine_def)
next
  case True
  then obtain g where g: "spacesThen (length (takeWhile isWhiteSpace (drop (hashCount l) l)))
       (drop (hashCount l) l) = Some g" and c: "1 \<le> hashCount l" "hashCount l \<le> 6"
    unfolding isHeadingLine_iff by auto
  from spacesThen_Some [OF g] have "trim g = trim (drop (hashCount l) l)"
    using trim_drop_spaces by blast
  moreover have "headingMatch l = Some (hashCount l, g)"
    using g c by (simp add: headingMatch_eq)
  ultimately show ?thesis using True by (simp add: headingOfLine_def)
qed

lemma splitOn_nonempty: "splitOn d s \<noteq> []"
  by (induction s) (auto split: list.splits)

lemma splitOn_append: "splitOn d (a @ d # b) = splitOn d a @ splitOn d b"
proof (induction a)
  case Nil
  then show ?case by simp
next
  case (Cons c a)
  obtain l ls where "splitOn d a = l # ls"
    using splitOn_nonempty [of d a] by (cases "splitOn d a") auto
  with Cons show ?case by simp
qed

text \<open>
  The extractor line by line, for every input: a line gives a record exactly when
  \<open>isHeadingLine\<close> holds of it.
\<close>

lemma extractHeadings_lines:
  "extractHeadings slug content = concat (map (headingOfLine slug) (splitOn (CHR 0x0A) content))"
  by (simp add: extractHeadings_def extractLoop_append headingOfLine_eq)

text \<open>
  The same facts for the extractor on code units, for every JavaScript string.
\<close>

lemma extractLoop16_append:
  "extractLoop16 slug ls acc =
     acc @ concat (map (\<lambda>l. case headingMatch16 l of None \<Rightarrow> []
        | Some (n, g) \<Rightarrow> [\<lparr>level16 = n, text16 = trim16 g, id16 = slug (trim16 g)\<rparr>]) ls)"
  by (induction ls arbitrary: acc) (auto split: option.splits)

lemma spacesThen16_None_iff:
  "spacesThen16 n s = None \<longleftrightarrow> (\<forall>k. 1 \<le> k \<and> k \<le> n \<longrightarrow> \<not> dotPlusEnd16 (drop k s))"
proof (induction n)
  case 0
  then show ?case by simp
next
  case (Suc n)
  show ?case
  proof (cases "dotPlusEnd16 (drop (Suc n) s)")
    case True
    then show ?thesis by auto
  next
    case False
    have "(\<forall>k. 1 \<le> k \<and> k \<le> Suc n \<longrightarrow> \<not> dotPlusEnd16 (drop k s))
          \<longleftrightarrow> (\<forall>k. 1 \<le> k \<and> k \<le> n \<longrightarrow> \<not> dotPlusEnd16 (drop k s))"
      using False by (auto simp: le_Suc_eq)
    with False Suc show ?thesis by simp
  qed
qed

lemma spacesThen16_Some:
  "spacesThen16 n s = Some g \<Longrightarrow> \<exists>k. 1 \<le> k \<and> k \<le> n \<and> g = drop k s \<and> dotPlusEnd16 g"
  by (induction n) (auto split: if_splits intro: le_SucI)

lemma hashesThen16_below:
  "h < hashCount16 line \<Longrightarrow> hashesThen16 h line = None"
proof (induction h)
  case 0
  then show ?case by simp
next
  case (Suc h)
  from Suc.prems have lt: "Suc h < length (takeWhile (\<lambda>c. c = 0x23) line)"
    by (simp add: hashCount16_def)
  then have "Suc h < length line"
    using length_takeWhile_le [of "\<lambda>c. c = 0x23" line] by linarith
  moreover have "line ! Suc h = 0x23"
  proof -
    let ?t = "takeWhile (\<lambda>c. c = 0x23) line"
    have mem: "?t ! Suc h \<in> set ?t" using lt by (rule nth_mem)
    have "?t ! Suc h = 0x23" using set_takeWhileD [OF mem] by blast
    then show ?thesis using takeWhile_nth [OF lt] by simp
  qed
  ultimately have "drop (Suc h) line = 0x23 # drop (Suc (Suc h)) line"
    by (simp add: Cons_nth_drop_Suc [symmetric])
  then have "takeWhile isWhiteSpace16 (drop (Suc h) line) = []"
    by (simp add: isWhiteSpace16_def)
  moreover have "hashesThen16 h line = None"
    using Suc by simp
  ultimately show ?case by simp
qed

lemma headingMatch16_eq:
  "headingMatch16 line =
     (if 1 \<le> hashCount16 line \<and> hashCount16 line \<le> 6 then
        map_option (Pair (hashCount16 line))
          (spacesThen16 (length (takeWhile isWhiteSpace16 (drop (hashCount16 line) line)))
             (drop (hashCount16 line) line))
      else None)"
proof (cases "hashCount16 line")
  case 0
  then show ?thesis by (simp add: headingMatch16_def hashCount16_def)
next
  case (Suc c)
  show ?thesis
  proof (cases "Suc c \<le> 6")
    case True
    have n: "hashesThen16 c line = None"
      using Suc by (simp add: hashesThen16_below)
    have "min 6 (hashCount16 line) = Suc c"
      using True Suc by simp
    then have "headingMatch16 line = hashesThen16 (Suc c) line"
      by (simp add: headingMatch16_def hashCount16_def)
    also have "\<dots> = map_option (Pair (Suc c))
          (spacesThen16 (length (takeWhile isWhiteSpace16 (drop (Suc c) line))) (drop (Suc c) line))"
      using n by (simp split: option.splits)
    finally show ?thesis
      using True Suc by simp
  next
    case False
    then have "hashesThen16 6 line = None"
      using Suc by (intro hashesThen16_below) simp
    moreover have "min 6 (hashCount16 line) = 6"
      using False Suc by simp
    ultimately have "headingMatch16 line = None"
      by (simp add: headingMatch16_def hashCount16_def)
    then show ?thesis
      using False Suc by simp
  qed
qed

lemma trim16_drop_spaces:
  "k \<le> length (takeWhile isWhiteSpace16 s) \<Longrightarrow> trim16 (drop k s) = trim16 s"
proof -
  assume k: "k \<le> length (takeWhile isWhiteSpace16 s)"
  have "s = takeWhile isWhiteSpace16 s @ dropWhile isWhiteSpace16 s" by simp
  let ?t = "takeWhile isWhiteSpace16 s"
  have "drop k (?t @ dropWhile isWhiteSpace16 s)
          = drop k ?t @ drop (k - length ?t) (dropWhile isWhiteSpace16 s)"
    by (rule drop_append)
  then have "drop k s = drop k ?t @ dropWhile isWhiteSpace16 s"
    using k by simp
  moreover have "\<forall>x\<in>set (drop k ?t). isWhiteSpace16 x"
    by (auto dest: in_set_dropD set_takeWhileD)
  ultimately have "dropWhile isWhiteSpace16 (drop k s) = dropWhile isWhiteSpace16 s"
    by (simp add: dropWhile_append2)
  then show ?thesis by (simp add: trim16_def)
qed

lemma isHeadingLine16_iff:
  "isHeadingLine16 line \<longleftrightarrow>
     1 \<le> hashCount16 line \<and> hashCount16 line \<le> 6 \<and>
     spacesThen16 (length (takeWhile isWhiteSpace16 (drop (hashCount16 line) line)))
       (drop (hashCount16 line) line) \<noteq> None"
proof -
  let ?r = "drop (hashCount16 line) line"
  have "(\<exists>k \<in> {1..<length ?r}. list_all isWhiteSpace16 (take k ?r) \<and>
            list_all (\<lambda>c. \<not> isLineTerminator16 c) (drop k ?r))
        \<longleftrightarrow> (\<exists>k. 1 \<le> k \<and> k \<le> length (takeWhile isWhiteSpace16 ?r) \<and> dotPlusEnd16 (drop k ?r))"
    (is "?A \<longleftrightarrow> ?B")
  proof
    assume ?A
    then obtain k where "1 \<le> k" "k < length ?r" "list_all isWhiteSpace16 (take k ?r)"
      "list_all (\<lambda>c. \<not> isLineTerminator16 c) (drop k ?r)" by auto
    then have "1 \<le> k \<and> k \<le> length (takeWhile isWhiteSpace16 ?r) \<and> dotPlusEnd16 (drop k ?r)"
      by (simp add: le_takeWhile_iff dotPlusEnd16_def)
    then show ?B by blast
  next
    assume ?B
    then obtain k where k: "1 \<le> k" "k \<le> length (takeWhile isWhiteSpace16 ?r)" "dotPlusEnd16 (drop k ?r)"
      by blast
    then have "k < length ?r" by (auto simp: dotPlusEnd16_def)
    with k show ?A by (auto simp: le_takeWhile_iff dotPlusEnd16_def)
  qed
  then show ?thesis
    unfolding isHeadingLine16_def Let_def spacesThen16_None_iff by blast
qed

lemma headingOfLine16_eq:
  "(case headingMatch16 l of None \<Rightarrow> []
        | Some (n, g) \<Rightarrow> [\<lparr>level16 = n, text16 = trim16 g, id16 = slug (trim16 g)\<rparr>]) = headingOfLine16 slug l"
proof (cases "isHeadingLine16 l")
  case False
  then have "headingMatch16 l = None"
    unfolding headingMatch16_eq isHeadingLine16_iff by auto
  with False show ?thesis by (simp add: headingOfLine16_def)
next
  case True
  then obtain g where g: "spacesThen16 (length (takeWhile isWhiteSpace16 (drop (hashCount16 l) l)))
       (drop (hashCount16 l) l) = Some g" and c: "1 \<le> hashCount16 l" "hashCount16 l \<le> 6"
    unfolding isHeadingLine16_iff by auto
  from spacesThen16_Some [OF g] have "trim16 g = trim16 (drop (hashCount16 l) l)"
    using trim16_drop_spaces by blast
  moreover have "headingMatch16 l = Some (hashCount16 l, g)"
    using g c by (simp add: headingMatch16_eq)
  ultimately show ?thesis using True by (simp add: headingOfLine16_def)
qed

lemma units_simps:
  "units [] = []" "units (c # cs) = of_char c # units cs"
  by (simp_all add: units_def)

lemma extractHeadings16_no_newline:
  "0x0A \<notin> set line \<Longrightarrow>
   extractHeadings16 slug line
     = (case headingMatch16 line of
          None \<Rightarrow> []
        | Some (n, g) \<Rightarrow> [\<lparr>level16 = n, text16 = trim16 g, id16 = slug (trim16 g)\<rparr>])"
proof -
  assume "0x0A \<notin> set line"
  then have "splitOn 0x0A line = [line]"
    by (induction line) auto
  then show ?thesis
    by (simp add: extractHeadings16_def split: option.splits)
qed

lemma headingMatch16_examples:
  "headingMatch16 (units ''```'') = None"
  "headingMatch16 (units ''# A '') = Some (1, units ''A '')"
  "headingMatch16 (units ''## B'' @ [0x2028]) = None"
  "headingMatch16 (units ''# '') = None"
  "headingMatch16 (units ''# Title'' @ [0x0D]) = None"
  by (simp_all add: units_simps headingMatch16_def dotPlusEnd16_def isWhiteSpace16_def
        isLineTerminator16_def)

text \<open>
  On a text over U+0000..U+00FF the extractor on code units returns the records of the
  extractor on \<^typ>\<open>string\<close>, character for character: the first embedding is the
  second one restricted to such texts.
\<close>

lemma unat_of_char: "unat (of_char c :: code_unit) = of_char c"
proof (rule of_nat_inverse)
  show "(word_of_nat (of_char c) :: code_unit) = of_char c"
    by (simp add: of_nat_of_char)
  show "(of_char c :: nat) < 2 ^ LENGTH(16)"
    by (rule less_trans [OF nat_of_char_less_256]) simp
qed

lemma of_char_units_eq: "(of_char c :: code_unit) = of_char d \<longleftrightarrow> c = d"
proof
  assume "(of_char c :: code_unit) = of_char d"
  then have "unat (of_char c :: code_unit) = unat (of_char d :: code_unit)" by simp
  then have "(of_char c :: nat) = of_char d" by (simp only: unat_of_char)
  then show "c = d" by simp
qed simp

lemma of_char_small: "(of_char c :: code_unit) < 0x100"
proof -
  have "unat (of_char c :: code_unit) < 256" by (simp add: unat_of_char)
  then show ?thesis by (simp add: word_less_nat_alt)
qed

lemma of_char_numerals:
  "(of_char c :: code_unit) = 0x09 \<longleftrightarrow> c = CHR 0x09"
  "(of_char c :: code_unit) = 0x0A \<longleftrightarrow> c = CHR 0x0A"
  "(of_char c :: code_unit) = 0x0B \<longleftrightarrow> c = CHR 0x0B"
  "(of_char c :: code_unit) = 0x0C \<longleftrightarrow> c = CHR 0x0C"
  "(of_char c :: code_unit) = 0x0D \<longleftrightarrow> c = CHR 0x0D"
  "(of_char c :: code_unit) = 0x20 \<longleftrightarrow> c = CHR 0x20"
  "(of_char c :: code_unit) = 0xA0 \<longleftrightarrow> c = CHR 0xA0"
  "(of_char c :: code_unit) = 0x23 \<longleftrightarrow> c = CHR 0x23"
  using of_char_units_eq [of c "CHR 0x09"] of_char_units_eq [of c "CHR 0x0A"]
    of_char_units_eq [of c "CHR 0x0B"] of_char_units_eq [of c "CHR 0x0C"]
    of_char_units_eq [of c "CHR 0x0D"] of_char_units_eq [of c "CHR 0x20"]
    of_char_units_eq [of c "CHR 0xA0"] of_char_units_eq [of c "CHR 0x23"]
  by simp_all

lemma of_char_wide:
  "(of_char c :: code_unit) \<noteq> 0x1680" "\<not> 0x2000 \<le> (of_char c :: code_unit)"
  "(of_char c :: code_unit) \<noteq> 0x2028" "(of_char c :: code_unit) \<noteq> 0x2029"
  "(of_char c :: code_unit) \<noteq> 0x202F" "(of_char c :: code_unit) \<noteq> 0x205F"
  "(of_char c :: code_unit) \<noteq> 0x3000" "(of_char c :: code_unit) \<noteq> 0xFEFF"
  using of_char_small [of c] by (auto simp: word_less_nat_alt word_le_nat_alt)

lemma isWhiteSpace16_of_char: "isWhiteSpace16 (of_char c) = isWhiteSpace c"
  by (simp add: isWhiteSpace16_def isWhiteSpace_def of_char_numerals of_char_wide)

lemma isLineTerminator16_of_char: "isLineTerminator16 (of_char c) = isLineTerminator c"
  by (simp add: isLineTerminator16_def isLineTerminator_def of_char_numerals of_char_wide)

lemma drop_units: "drop n (units s) = units (drop n s)"
  by (simp add: units_def drop_map)

lemma trim16_units: "trim16 (units s) = units (trim s)"
  by (simp add: trim16_def trim_def units_def dropWhile_map rev_map comp_def
      isWhiteSpace16_of_char)

lemma dotPlusEnd16_units: "dotPlusEnd16 (units r) = dotPlusEnd r"
  by (simp add: dotPlusEnd16_def dotPlusEnd_def units_def list_all_iff
      isLineTerminator16_of_char)

lemma spacesThen16_units: "spacesThen16 n (units s) = map_option units (spacesThen n s)"
  by (induction n) (simp_all add: drop_units dotPlusEnd16_units)

lemma blanks_units:
  "length (takeWhile isWhiteSpace16 (units s)) = length (takeWhile isWhiteSpace s)"
  by (simp add: units_def takeWhile_map comp_def isWhiteSpace16_of_char)

lemma marks_units:
  "length (takeWhile (\<lambda>c. c = 0x23) (units s)) = length (takeWhile (\<lambda>c. c = CHR 0x23) s)"
  by (simp add: units_def takeWhile_map comp_def of_char_numerals)

lemma hashesThen16_units:
  "hashesThen16 h (units s) = map_option (\<lambda>(n, g). (n, units g)) (hashesThen h s)"
  by (induction h)
     (simp_all add: drop_units spacesThen16_units blanks_units split: option.splits)

lemma headingMatch16_units:
  "headingMatch16 (units l) = map_option (\<lambda>(n, g). (n, units g)) (headingMatch l)"
  by (simp add: headingMatch16_def headingMatch_def hashesThen16_units marks_units)

lemma splitOn_units: "splitOn 0x0A (units s) = map units (splitOn (CHR 0x0A) s)"
  by (induction s) (auto simp: units_simps of_char_numerals split: list.splits)

lemma extractHeadings16_units:
  assumes "\<And>s. slug16 (units s) = units (slug s)"
  shows "extractHeadings16 slug16 (units content)
     = map (\<lambda>h. \<lparr>level16 = level h, text16 = units (text_h h), id16 = units (id_h h)\<rparr>)
         (extractHeadings slug content)"
proof -
  have "(case headingMatch16 (units l) of None \<Rightarrow> []
         | Some (n, g) \<Rightarrow> [\<lparr>level16 = n, text16 = trim16 g, id16 = slug16 (trim16 g)\<rparr>])
      = map (\<lambda>h. \<lparr>level16 = level h, text16 = units (text_h h), id16 = units (id_h h)\<rparr>)
          (case headingMatch l of None \<Rightarrow> []
           | Some (n, g) \<Rightarrow> [\<lparr>level = n, text_h = trim g, id_h = slug (trim g)\<rparr>])" for l
    by (simp add: headingMatch16_units trim16_units assms split: option.splits)
  then show ?thesis
    by (simp add: extractHeadings16_def extractHeadings_def extractLoop16_append
        extractLoop_append splitOn_units map_concat comp_def)
qed

text \<open>
  C7 (as amended). For every input text the heading extractor returns, in document order,
  one record for each line that starts with 1 to 6 marks \<open>#\<close> followed by one or more
  whitespace characters and then one or more further characters none of which is a line
  terminator (CR, U+2028, U+2029); its level is the count of marks and its text the trimmed
  remainder of the line. Every line is judged on its own, so a line inside a fenced code
  block is extracted like any other.
\<close>

theorem extractHeadings16_records:
  "extractHeadings16 slug content
     = concat (map (headingOfLine16 slug) (splitOn 0x0A content))
   \<and> (\<forall>a b. extractHeadings16 slug (a @ 0x0A # b)
              = extractHeadings16 slug a @ extractHeadings16 slug b)"
  by (simp add: extractHeadings16_def extractLoop16_append headingOfLine16_eq splitOn_append)

theorem extractHeadings16_records_witness:
  "extractHeadings16 (\<lambda>s. s)
     (units ''```'' @ 0x0A # units ''# A '' @ 0x0A # units ''```'' @ 0x0A # units ''## B'' @ [0x2028])
     = [\<lparr>level16 = 1, text16 = units ''A'', id16 = units ''A''\<rparr>]"
proof -
  have t: "trim16 (units ''A '') = units ''A''"
    by (simp add: trim16_def units_simps isWhiteSpace16_def)
  have l1: "extractHeadings16 (\<lambda>s. s) (units ''```'') = []"
    by (subst extractHeadings16_no_newline) (simp_all add: headingMatch16_examples, simp add: units_simps)
  have l2: "extractHeadings16 (\<lambda>s. s) (units ''# A '')
              = [\<lparr>level16 = 1, text16 = units ''A'', id16 = units ''A''\<rparr>]"
    by (subst extractHeadings16_no_newline) (simp_all add: headingMatch16_examples t, simp add: units_simps)
  have l3: "extractHeadings16 (\<lambda>s. s) (units ''## B'' @ [0x2028]) = []"
    by (subst extractHeadings16_no_newline) (simp_all add: headingMatch16_examples, simp add: units_simps)
  have "extractHeadings16 (\<lambda>s. s)
     (units ''```'' @ 0x0A # units ''# A '' @ 0x0A # units ''```'' @ 0x0A # units ''## B'' @ [0x2028])
     = extractHeadings16 (\<lambda>s. s) (units ''```'')
       @ extractHeadings16 (\<lambda>s. s) (units ''# A '')
       @ extractHeadings16 (\<lambda>s. s) (units ''```'')
       @ extractHeadings16 (\<lambda>s. s) (units ''## B'' @ [0x2028])"
    by (simp only: extractHeadings16_records [THEN conjunct2, rule_format])
  then show ?thesis
    by (simp only: l1 l2 l3 append_Nil append_Nil2)
qed

text \<open>
  The claim as it was stated asks for a record on every line of 1 to 6 marks followed by
  whitespace. The line \<open>"# "\<close> is one, and gives no record: the pattern wants a character
  after the whitespace. A line that ends with a carriage return is another: the pattern's
  \<open>.\<close> does not take it.
\<close>

theorem extractHeadings16_claimed_counterexample:
  "claimedHeadingLine16 (units ''# '')
   \<and> (\<forall>slug. extractHeadings16 slug (units ''# '') = [])
   \<and> claimedHeadingLine16 (units ''# Title'' @ [0x0D])
   \<and> (\<forall>slug. extractHeadings16 slug (units ''# Title'' @ [0x0D]) = [])"
proof -
  have "claimedHeadingLine16 (units ''# '')"
    by (simp add: claimedHeadingLine16_def hashCount16_def units_simps isWhiteSpace16_def)
  moreover have "claimedHeadingLine16 (units ''# Title'' @ [0x0D])"
    by (simp add: claimedHeadingLine16_def hashCount16_def units_simps isWhiteSpace16_def)
  moreover have "extractHeadings16 slug (units ''# '') = []" for slug
    by (subst extractHeadings16_no_newline) (simp_all add: headingMatch16_examples, simp add: units_simps)
  moreover have "extractHeadings16 slug (units ''# Title'' @ [0x0D]) = []" for slug
    by (subst extractHeadings16_no_newline) (simp_all add: headingMatch16_examples, simp add: units_simps)
  ultimately show ?thesis by simp
qed

text \<open>The levels of the records the extractor returns, alone or in a combined run.\<close>

lemma headingOfLine_level:
  "h \<in> set (headingOfLine slug line) \<Longrightarrow> 1 \<le> level h \<and> level h \<le> 6"
  by (auto simp: headingOfLine_def isHeadingLine_def Let_def split: if_splits)

lemma extractHeadings_levels:
  "h \<in> set (extractHeadings slug content) \<Longrightarrow> 1 \<le> level h \<and> level h \<le> 6"
  by (auto simp: extractHeadings_def extractLoop_append headingOfLine_eq
      dest: headingOfLine_level)

lemma combinedHeadings_levels:
  "h \<in> set (combinedHeadings slug files) \<Longrightarrow> 1 \<le> level h \<and> level h \<le> 6"
proof (induction files)
  case Nil
  then show ?case by simp
next
  case (Cons f files)
  obtain base content where f: "f = (base, content)" by (cases f)
  from Cons show ?case
    unfolding f by (auto simp: qualifyHeading_def Let_def dest: extractHeadings_levels)
qed

section \<open>The table of contents\<close>

lemma tocLoop_entries:
  "\<forall>h \<in> set hs. 1 \<le> level h \<Longrightarrow> tocLoop hs toc = Inr (toc @ concat (map tocEntry hs))"
  by (induction hs arbitrary: toc) auto

lemma displayText_removeStars: "replaceAllRegex ''**'' '''' b t = removeStars t"
  by (induction t arbitrary: b rule: removeStars.induct) auto

lemma removeStars_Cons: "d \<noteq> CHR ''*'' \<Longrightarrow> removeStars (d # cs) = d # removeStars cs"
  by (cases cs) auto

lemma removeStars_no_pair: "indexOf ''**'' (removeStars t) = None"
proof (induction t rule: removeStars.induct)
  case 1
  then show ?case by simp
next
  case (2 c)
  then show ?case by simp
next
  case (3 c d cs)
  show ?case
  proof (cases "c = CHR ''*'' \<and> d = CHR ''*''")
    case True
    with 3 show ?thesis by simp
  next
    case False
    note nf = this
    show ?thesis
    proof (cases "c = CHR ''*''")
      case True
      with nf have "d \<noteq> CHR ''*''" by simp
      then have "removeStars (d # cs) = d # removeStars cs" by (rule removeStars_Cons)
      with 3 nf True \<open>d \<noteq> CHR ''*''\<close> show ?thesis by simp
    next
      case False
      with 3 nf show ?thesis by simp
    qed
  qed
qed

lemma removeStars_keeps_others:
  "filter (\<lambda>c. c \<noteq> CHR ''*'') (removeStars t) = filter (\<lambda>c. c \<noteq> CHR ''*'') t"
  by (induction t rule: removeStars.induct) auto

lemma indent_spaces: "concat (replicate n ''  '') = replicate (2 * n) CHR '' ''"
  by (induction n) auto

text \<open>
  C8. For heading records with levels from 1 up (the extractor gives 1 to 6, in a
  per-file run and in a combined run), the builder
  returns the header, then exactly one entry per record in the order of the records, then
  the closing tags and the page-break marker. The entry of a record is indented by two
  blanks per level above 1, links to \<open>#\<close> followed by the record's id, and shows the
  record's text with every \<open>**\<close> removed: no \<open>**\<close> is left, and every character other than
  \<open>*\<close> is kept as it is.
\<close>

theorem generateTOC_entries:
  assumes "\<forall>h \<in> set headings. 1 \<le> level h"
  shows \<open>generateTOC headings
           = Inr (tocHeader @ concat (map tocEntry headings)
                  @ ''</ul>\<newline></div>\<newline>'' @ ''<div class="page-break"></div>\<newline>'')
         \<and> length (map tocEntry headings) = length headings
         \<and> (\<forall>i < length headings.
               map tocEntry headings ! i
                 = replicate (2 * (level (headings ! i) - 1)) CHR '' ''
                   @ ''<li class="toc-level-'' @ showNat (level (headings ! i))
                   @ ''"><a href="#'' @ id_h (headings ! i) @ ''">''
                   @ removeStars (text_h (headings ! i)) @ ''</a></li>\<newline>''
               \<and> indexOf ''**'' (removeStars (text_h (headings ! i))) = None
               \<and> filter (\<lambda>c. c \<noteq> CHR ''*'') (removeStars (text_h (headings ! i)))
                   = filter (\<lambda>c. c \<noteq> CHR ''*'') (text_h (headings ! i)))
         \<and> (\<forall>slug content. \<forall>h \<in> set (extractHeadings slug content). 1 \<le> level h \<and> level h \<le> 6)
         \<and> (\<forall>slug files. \<forall>h \<in> set (combinedHeadings slug files). 1 \<le> level h \<and> level h \<le> 6)\<close>
proof -
  have "generateTOC headings = Inr (tocHeader @ concat (map tocEntry headings) @ tocFooter)"
    using assms by (simp add: generateTOC_def tocLoop_entries)
  moreover have \<open>\<And>h. tocEntry h
                 = replicate (2 * (level h - 1)) CHR '' ''
                   @ ''<li class="toc-level-'' @ showNat (level h)
                   @ ''"><a href="#'' @ id_h h @ ''">''
                   @ removeStars (text_h h) @ ''</a></li>\<newline>''\<close>
    by (simp add: tocEntry_def displayText_removeStars indent_spaces)
  ultimately show ?thesis
    using extractHeadings_levels combinedHeadings_levels
    by (simp add: tocFooter_def removeStars_no_pair removeStars_keeps_others)
qed

theorem generateTOC_entries_witness:
  \<open>generateTOC [\<lparr>level = 1, text_h = ''A **b** *c*'', id_h = ''a-b-c''\<rparr>, \<lparr>level = 3, text_h = ''D'', id_h = ''d''\<rparr>]
     = Inr (tocHeader
            @ ''<li class="toc-level-1"><a href="#a-b-c">A b *c*</a></li>\<newline>''
            @ ''    <li class="toc-level-3"><a href="#d">D</a></li>\<newline>''
            @ ''</ul>\<newline></div>\<newline><div class="page-break"></div>\<newline>'')\<close>
proof -
  let ?hs = "[\<lparr>level = 1, text_h = ''A **b** *c*'', id_h = ''a-b-c''\<rparr>, \<lparr>level = 3, text_h = ''D'', id_h = ''d''\<rparr>]"
  have h: "\<forall>h \<in> set ?hs. 1 \<le> level h" by simp
  have e: \<open>concat (map tocEntry ?hs) = ''<li class="toc-level-1"><a href="#a-b-c">A b *c*</a></li>\<newline>''
            @ ''    <li class="toc-level-3"><a href="#d">D</a></li>\<newline>''\<close>
    by code_simp
  from generateTOC_entries [OF h] have \<open>generateTOC ?hs = Inr (tocHeader @ concat (map tocEntry ?hs)
                  @ ''</ul>\<newline></div>\<newline>'' @ ''<div class="page-break"></div>\<newline>'')\<close>
    by blast
  then show ?thesis unfolding e by simp
qed

section \<open>The anchor identifier generator\<close>

text \<open>
  C2. With the identifier generator as the specification describes it, the heading
  \<open>## Getting Started\<close> gets the id \<open>getting-started\<close>; in a combined run the file
  \<open>guide.md\<close> qualifies its text to \<open>Getting Started (guide.md)\<close>, and the id becomes
  \<open>getting-started-guide-md\<close>.
\<close>

theorem slugify_getting_started:
  "slugify ''Getting Started'' = ''getting-started''
   \<and> extractHeadings slugify ''## Getting Started''
       = [\<lparr>level = 2, text_h = ''Getting Started'', id_h = ''getting-started''\<rparr>]
   \<and> slugify ''Getting Started (guide.md)'' = ''getting-started-guide-md''
   \<and> combinedHeadings slugify [(''guide.md'', ''## Getting Started'')]
       = [\<lparr>level = 2, text_h = ''Getting Started (guide.md)'',
           id_h = ''getting-started-guide-md''\<rparr>]"
  by code_simp

section \<open>The anchor injector\<close>

text \<open>
  What one round of the injector does: the first heading element of the record's level
  whose trimmed inner text is the record's trimmed text is searched; without one the markup
  stays as it is, with one the markup changes at one place.
\<close>

lemma lazyDotUntil_Some:
  "lazyDotUntil cl s = Some g \<Longrightarrow> (\<exists>rest. s = g @ cl @ rest) \<and> list_all (\<lambda>c. \<not> isLineTerminator c) g"
proof (induction s arbitrary: g)
  case Nil
  then show ?case by (auto split: if_splits)
next
  case (Cons c cs)
  show ?case
  proof (cases "startsWith cl (c # cs)")
    case True
    with Cons.prems show ?thesis by (auto simp: startsWith_append)
  next
    case False
    with Cons.prems obtain g' where g': "lazyDotUntil cl cs = Some g'" "g = c # g'" "\<not> isLineTerminator c"
      by (auto split: if_splits)
    from Cons.IH [OF g'(1)] g'(2,3) show ?thesis by auto
  qed
qed

lemma findHeading_Some:
  "findHeading op cl t html = Some (original, g) \<Longrightarrow>
     original = op @ g @ cl \<and> trim g = t \<and> (\<exists>pre post. html = pre @ original @ post)"
proof (induction op cl t html rule: findHeading.induct)
  case (1 op cl target)
  then show ?case by simp
next
  case (2 op cl target c cs)
  show ?case
  proof (cases "startsWith op (c # cs)")
    case False
    from "2.prems" False have f: "findHeading op cl target cs = Some (original, g)" by simp
    from "2.IH"(3) [OF False f]
    have "original = op @ g @ cl \<and> trim g = target \<and> (\<exists>pre post. cs = pre @ original @ post)" .
    then obtain pre post where "original = op @ g @ cl" "trim g = target" "cs = pre @ original @ post" by blast
    then have "c # cs = (c # pre) @ original @ post" by simp
    with \<open>original = op @ g @ cl\<close> \<open>trim g = target\<close> show ?thesis by blast
  next
    case True
    note sw = this
    show ?thesis
    proof (cases "lazyDotUntil cl (drop (length op) (c # cs))")
      case None
      from "2.prems" sw None have f: "findHeading op cl target cs = Some (original, g)" by simp
      from "2.IH"(1) [OF sw None f]
      have "original = op @ g @ cl \<and> trim g = target \<and> (\<exists>pre post. cs = pre @ original @ post)" .
      then obtain pre post where "original = op @ g @ cl" "trim g = target" "cs = pre @ original @ post" by blast
      then have "c # cs = (c # pre) @ original @ post" by simp
      with \<open>original = op @ g @ cl\<close> \<open>trim g = target\<close> show ?thesis by blast
    next
      case (Some g')
      note ld = this
      from sw obtain r where r: "c # cs = op @ r" by (auto simp: startsWith_append)
      then have dr: "drop (length op) (c # cs) = r" by simp
      from lazyDotUntil_Some [OF ld [unfolded dr]] obtain rest where rest: "r = g' @ cl @ rest" by blast
      show ?thesis
      proof (cases "trim g' = target")
        case True
        with "2.prems" sw ld have "original = op @ g' @ cl" "g = g'" by auto
        moreover have "c # cs = [] @ (op @ g' @ cl) @ rest" using r rest by simp
        ultimately show ?thesis using True by blast
      next
        case False
        let ?d = "drop (length op + length g' + length cl - 1) cs"
        from "2.prems" sw ld False have f: "findHeading op cl target ?d = Some (original, g)" by simp
        from "2.IH"(2) [OF sw ld False f]
        have "original = op @ g @ cl \<and> trim g = target \<and> (\<exists>pre post. ?d = pre @ original @ post)" .
        then obtain pre post where p: "original = op @ g @ cl" "trim g = target" "?d = pre @ original @ post" by blast
        have "take (length op + length g' + length cl - 1) cs @ ?d = cs"
          by (rule append_take_drop_id)
        then have "take (length op + length g' + length cl - 1) cs @ pre @ original @ post = cs"
          unfolding p(3) .
        then have "c # cs = (c # take (length op + length g' + length cl - 1) cs @ pre) @ original @ post"
          by simp
        with p(1,2) show ?thesis by blast
      qed
    qed
  qed
qed

lemma addHeadingId_one_element:
  "\<exists>i n r. addHeadingId html h = take i html @ r @ drop (i + n) html"
proof (cases "findHeading (''<h'' @ showNat (level h) @ ''>'') (''</h'' @ showNat (level h) @ ''>'')
     (trim (text_h h)) html")
  case None
  then have "addHeadingId html h = take 0 html @ [] @ drop (0 + 0) html"
    by (simp add: addHeadingId_def)
  then show ?thesis by blast
next
  case (Some m)
  obtain original g where m: "m = (original, g)" by (cases m)
  from findHeading_Some [OF Some [unfolded m]] obtain pre post where "html = pre @ original @ post" by blast
  from indexOf_occurs [OF this] obtain i where i: "indexOf original html = Some i" by blast
  have "addHeadingId html h = take i html @ getSubstitution original (take i html) (drop (i + length original) html)
         (''<h'' @ showNat (level h) @ '' id='' @ [CHR 0x22] @ id_h h @ [CHR 0x22] @ ''>'' @ g @ ''</h'' @ showNat (level h) @ ''>'') @ drop (i + length original) html"
    using Some i unfolding m by (simp add: addHeadingId_def replaceString_def)
  then show ?thesis by blast
qed

lemma addHeadingId_no_match:
  "findHeading (''<h'' @ showNat (level h) @ ''>'') (''</h'' @ showNat (level h) @ ''>'')
     (trim (text_h h)) html = None
   \<Longrightarrow> addHeadingId html h = html"
  by (simp add: addHeadingId_def)

lemma combinedHeadings_guide:
  "combinedHeadings slug [(''guide.md'', ''## Getting Started'')]
     = [\<lparr>level = 2, text_h = ''Getting Started (guide.md)'',
         id_h = slug ''Getting Started (guide.md)''\<rparr>]"
proof -
  have "headingMatch ''## Getting Started'' = Some (2, ''Getting Started'')" by code_simp
  moreover have "trim ''Getting Started'' = ''Getting Started''" by code_simp
  ultimately show ?thesis
    by (simp add: extractHeadings_def qualifyHeading_def Let_def)
qed

lemma findHeading_guide:
  "findHeading ''<h2>'' ''</h2>'' ''Getting Started (guide.md)''
     (''<h2>Getting Started</h2>'' @ [CHR 0x0A]) = None"
  by code_simp

lemma showNat_2: "showNat 2 = ''2''"
  by code_simp

lemma trim_qualified: "trim ''Getting Started (guide.md)'' = ''Getting Started (guide.md)''"
  by code_simp

text \<open>
  C1. The claim says that in a combined run the injector still matches a heading element
  against the text the record had before it was qualified. The code compares with the
  qualified text. For the file \<open>guide.md\<close> with the line \<open>## Getting Started\<close> the record of
  the combined run has the text \<open>Getting Started (guide.md)\<close>, and the rendered element
  \<open><h2>Getting Started</h2>\<close> is left without an id, whatever the id is; the record of a
  per-file run, with the text \<open>Getting Started\<close>, gets its id into the same markup.
\<close>

theorem addHeadingIds_combined_no_id:
  \<open>(\<forall>slug.
      map text_h (combinedHeadings slug [(''guide.md'', ''## Getting Started'')])
        = [''Getting Started (guide.md)'']
      \<and> addHeadingIds (''<h2>Getting Started</h2>'' @ [CHR 0x0A])
            (combinedHeadings slug [(''guide.md'', ''## Getting Started'')])
          = ''<h2>Getting Started</h2>'' @ [CHR 0x0A])
   \<and> addHeadingIds (''<h2>Getting Started</h2>'' @ [CHR 0x0A])
        [\<lparr>level = 2, text_h = ''Getting Started'', id_h = ''getting-started''\<rparr>]
       = ''<h2 id="getting-started">Getting Started</h2>''
           @ [CHR 0x0A]\<close>
proof -
  have \<open>addHeadingIds (''<h2>Getting Started</h2>'' @ [CHR 0x0A])
        [\<lparr>level = 2, text_h = ''Getting Started'', id_h = ''getting-started''\<rparr>]
       = ''<h2 id="getting-started">Getting Started</h2>''
           @ [CHR 0x0A]\<close>
    by code_simp
  moreover have
    "addHeadingIds (''<h2>Getting Started</h2>'' @ [CHR 0x0A])
        (combinedHeadings slug [(''guide.md'', ''## Getting Started'')])
       = ''<h2>Getting Started</h2>'' @ [CHR 0x0A]" for slug
    using findHeading_guide unfolding combinedHeadings_guide
    by (simp add: addHeadingIds_def addHeadingId_def showNat_2 trim_qualified
          del: findHeading.simps)
  ultimately show ?thesis unfolding combinedHeadings_guide by simp
qed

section \<open>The command line\<close>

text \<open>
  Once the traversal has returned its list of documents, the script calls \<open>process.exit(1)\<close>
  exactly when the list is empty or when the format is \<open>pdf\<close> and the paper size is none of
  A4, Letter, Legal; no document is then handed to a converter.
\<close>

lemma main_exit:
  "((\<exists>n>0. main opts files = Exit n)
      \<longleftrightarrow> files = [] \<or> (format opts = ''pdf'' \<and> paper opts \<notin> {''A4'', ''Letter'', ''Legal''}))
   \<and> (files = [] \<or> (format opts = ''pdf'' \<and> paper opts \<notin> {''A4'', ''Letter'', ''Legal''})
        \<longrightarrow> main opts files = Exit 1 \<and> unitsProcessed (main opts files) = 0)"
  by (auto simp: main_def validPaperSizes_def unitsProcessed_def)




section \<open>The path remapper\<close>

lemma replaceAllRegex_no_match:
  "f \<noteq> [] \<Longrightarrow> indexOf f s = None \<Longrightarrow> replaceAllRegex f t b s = s"
  by (induction s arbitrary: b) (auto split: if_splits)

lemma replaceAllRegex_first_match:
  "f \<noteq> [] \<Longrightarrow> indexOf f s = Some i \<Longrightarrow>
   replaceAllRegex f t b s
     = take i s @ getSubstitution f (b @ take i s) (drop (i + length f) s) t
       @ replaceAllRegex f t (b @ take (i + length f) s) (drop (i + length f) s)"
proof (induction s arbitrary: b i)
  case Nil
  then show ?case by simp
next
  case (Cons c cs)
  show ?case
  proof (cases "startsWith f (c # cs)")
    case True
    with Cons.prems have i: "i = 0" by simp
    from True have tk: "take (length f) (c # cs) = f"
      by (simp add: startsWith_take)
    have dr: "drop (length f - 1) cs = drop (length f) (c # cs)"
      using Cons.prems(1) by (cases f) auto
    show ?thesis
      using True Cons.prems(1) unfolding i
      by (simp only: replaceAllRegex.simps dr tk if_True if_False take_0 append_Nil append_Nil2
            add_0 refl)
  next
    case False
    with Cons.prems obtain j where j: "indexOf f cs = Some j" "i = Suc j"
      by auto
    from Cons.IH [OF Cons.prems(1) j(1), of "b @ [c]"] False Cons.prems(1) j(2)
    show ?thesis by simp
  qed
qed

lemma remapPair_nonempty: "m \<in> set (remapPair pair) \<Longrightarrow> from_m m \<noteq> []"
  by (auto simp: remapPair_def split: list.splits if_splits)

lemma configFromOptions_rules:
  "enableRemapping (configFromOptions r)
   \<and> (\<forall>m \<in> set (pathMappings (configFromOptions r)). from_m m \<noteq> [])"
  by (auto simp: configFromOptions_def initialConfig_def dest: remapPair_nonempty)

text \<open>
  C6. For a reference that is not external the remapper returns the reference rewritten by
  the rules of the list, one after the other in list order (remapping is switched on in
  every configuration the program builds, and every pattern is a non-empty literal). A
  rule rewrites globally: a string without the pattern stays as it is; otherwise the text
  up to the first occurrence is kept, the occurrence is replaced by the rule's
  replacement, read as a template, and the rule goes on behind the occurrence. A
  replacement without \<open>$\<close> is put in as it is. The rule \<open>/assets/\<close> to \<open>/_assets/\<close>
  turns \<open>/assets/logo.png\<close> into \<open>/_assets/logo.png\<close>.
\<close>

theorem remapImagePath_rules:
  assumes "\<not> isExternalUrl p" and "enableRemapping cfg"
  shows "remapImagePath cfg p
           = \<lparr>path_r = foldl applyMapping p (pathMappings cfg), isExternal = False\<rparr>
    \<and> foldl applyMapping p [] = p
    \<and> (\<forall>m ms. foldl applyMapping p (m # ms) = foldl applyMapping (applyMapping p m) ms)
    \<and> (\<forall>m s. applyMapping s m = replaceAllRegex (from_m m) (to_m m) [] s)
    \<and> (\<forall>f t b s. f \<noteq> [] \<and> indexOf f s = None \<longrightarrow> replaceAllRegex f t b s = s)
    \<and> (\<forall>f t b s i. f \<noteq> [] \<and> indexOf f s = Some i \<longrightarrow>
          replaceAllRegex f t b s
            = take i s @ getSubstitution f (b @ take i s) (drop (i + length f) s) t
              @ replaceAllRegex f t (b @ take (i + length f) s) (drop (i + length f) s))
    \<and> (\<forall>m b a t. CHR ''$'' \<notin> set t \<longrightarrow> getSubstitution m b a t = t)
    \<and> (\<forall>r. enableRemapping (configFromOptions r)
            \<and> (\<forall>m \<in> set (pathMappings (configFromOptions r)). from_m m \<noteq> []))
    \<and> remapImagePath initialConfig ''/assets/logo.png''
        = \<lparr>path_r = ''/_assets/logo.png'', isExternal = False\<rparr>"
proof -
  have "remapImagePath initialConfig ''/assets/logo.png''
        = \<lparr>path_r = ''/_assets/logo.png'', isExternal = False\<rparr>"
    by code_simp
  then show ?thesis
    using assms configFromOptions_rules
    by (simp add: remapImagePath_def applyMapping_def replaceAllRegex_no_match
          replaceAllRegex_first_match getSubstitution_plain)
qed

theorem remapImagePath_rules_witness:
  "\<not> isExternalUrl ''/assets/a/assets/b.png''
   \<and> enableRemapping (configFromOptions ''/assets/:/_assets/,_:-'')
   \<and> remapImagePath (configFromOptions ''/assets/:/_assets/,_:-'') ''/assets/a/assets/b.png''
       = \<lparr>path_r = ''/-assets/a/-assets/b.png'', isExternal = False\<rparr>"
proof -
  have e: "\<not> isExternalUrl ''/assets/a/assets/b.png''" by code_simp
  have c: "configFromOptions ''/assets/:/_assets/,_:-''
           = \<lparr>enableRemapping = True,
              pathMappings = [\<lparr>from_m = ''/assets/'', to_m = ''/_assets/''\<rparr>,
                              \<lparr>from_m = ''_'', to_m = ''-''\<rparr>],
              handleExternalUrls = True\<rparr>"
    by code_simp
  have r: "enableRemapping (configFromOptions ''/assets/:/_assets/,_:-'')"
    unfolding c by simp
  have f: "foldl applyMapping ''/assets/a/assets/b.png''
             (pathMappings (configFromOptions ''/assets/:/_assets/,_:-''))
           = ''/-assets/a/-assets/b.png''"
    unfolding c by code_simp
  from remapImagePath_rules [OF e r] f e r show ?thesis by simp
qed

section \<open>Image references\<close>

lemma consoleLog_fs: "fs (consoleLog w l) = fs w"
  by (simp add: consoleLog_def)

lemma copyLoop_external:
  "list_all isExternalUrl ps \<Longrightarrow>
   \<exists>w'. copyLoop P cfg sd od w ps = Inr (ps, w') \<and> fs w' = fs w"
proof (induction ps arbitrary: w)
  case Nil
  then show ?case by simp
next
  case (Cons p ps)
  let ?w1 = "consoleLog w (''External URL detected, keeping as-is: '' @ p)"
  from Cons.prems have p: "isExternalUrl p" and ps: "list_all isExternalUrl ps" by simp_all
  from Cons.IH [OF ps, of ?w1] obtain w' where
    w': "copyLoop P cfg sd od ?w1 ps = Inr (ps, w')" "fs w' = fs ?w1" by blast
  have "copyImage P cfg sd od w p = Inr (p, ?w1)"
    using p by (simp add: copyImage_def)
  with w' show ?case by (simp add: consoleLog_fs)
qed

lemma embedLoop_external:
  "list_all (\<lambda>i. isExternalUrl (src i)) imgs \<Longrightarrow>
   \<exists>w'. embedLoop P cfg sd (html, w) imgs = Inr (html, w') \<and> fs w' = fs w"
proof (induction imgs arbitrary: w)
  case Nil
  then show ?case by simp
next
  case (Cons i imgs)
  let ?w1 = "consoleLog w (''External URL image detected: '' @ src i)"
  from Cons.prems have p: "isExternalUrl (src i)" and ps: "list_all (\<lambda>i. isExternalUrl (src i)) imgs" by simp_all
  from Cons.IH [OF ps, of ?w1] obtain w' where
    w': "embedLoop P cfg sd (html, ?w1) imgs = Inr (html, w')" "fs w' = fs ?w1" by blast
  have "embedImage P cfg sd (html, w) i = Inr (html, ?w1)"
    using p by (simp add: embedImage_def)
  with w' show ?case by (simp add: consoleLog_fs)
qed

text \<open>
  C3. A reference that begins with \<open>http://\<close> or \<open>https://\<close>, in any case of the letters,
  is returned as it is by the remapper (marked external) and by the copy step of linked
  mode, and the embedding step of embedded mode leaves the markup as it is; neither
  touches the file system. A list of such references comes back unchanged from
  \<open>copyImages\<close>, which creates nothing but its \<open>images\<close> directory, and a document whose
  image tags are all external comes back unchanged from \<open>convertImagesToBase64\<close>.
\<close>

theorem external_reference_unchanged:
  assumes "isExternalUrl p"
  shows "remapImagePath cfg p = \<lparr>path_r = p, isExternal = True\<rparr>
    \<and> copyImage P cfg sourceDir imagesOutputDir w p
        = Inr (p, consoleLog w (''External URL detected, keeping as-is: '' @ p))
    \<and> embedImage P cfg sourceDir (html, w) \<lparr>fullTag = tag, src = p\<rparr>
        = Inr (html, consoleLog w (''External URL image detected: '' @ p))
    \<and> (\<forall>l. fs (consoleLog w l) = fs w)
    \<and> (\<forall>ps. list_all isExternalUrl ps \<longrightarrow>
          (\<exists>w'. copyImages P cfg sourceFile ps outputDir w = Inr (ps, w')
                \<and> (\<forall>x. x \<noteq> path_join P outputDir ''images'' \<longrightarrow> fs w' x = fs w x)))
    \<and> (\<forall>doc. list_all (\<lambda>i. isExternalUrl (src i)) (collectImgTags doc) \<longrightarrow>
          (\<exists>w'. convertImagesToBase64 P cfg sourceFile doc w = Inr (doc, w') \<and> fs w' = fs w))"
proof -
  have a: "\<forall>ps. list_all isExternalUrl ps \<longrightarrow>
          (\<exists>w'. copyImages P cfg sourceFile ps outputDir w = Inr (ps, w')
                \<and> (\<forall>x. x \<noteq> path_join P outputDir ''images'' \<longrightarrow> fs w' x = fs w x))"
  proof (intro allI impI)
    fix ps
    assume ps: "list_all isExternalUrl ps"
    let ?d = "path_join P outputDir ''images''"
    show "\<exists>w'. copyImages P cfg sourceFile ps outputDir w = Inr (ps, w')
                \<and> (\<forall>x. x \<noteq> ?d \<longrightarrow> fs w' x = fs w x)"
    proof (cases "existsSync (fs w) ?d")
      case True
      from copyLoop_external [OF ps, of P cfg "path_dirname P sourceFile" ?d "w\<lparr>fs := fs w\<rparr>"]
      show ?thesis using True by (auto simp: copyImages_def)
    next
      case False
      then have m: "mkdirSync (fs w) ?d = Inr ((fs w)(?d \<mapsto> Dir))"
        by (simp add: mkdirSync_def existsSync_def)
      from copyLoop_external [OF ps, of P cfg "path_dirname P sourceFile" ?d "w\<lparr>fs := (fs w)(?d \<mapsto> Dir)\<rparr>"]
      show ?thesis using False m by (auto simp: copyImages_def)
    qed
  qed
  have b: "\<forall>doc. list_all (\<lambda>i. isExternalUrl (src i)) (collectImgTags doc) \<longrightarrow>
          (\<exists>w'. convertImagesToBase64 P cfg sourceFile doc w = Inr (doc, w') \<and> fs w' = fs w)"
    using embedLoop_external by (simp add: convertImagesToBase64_def)
  show ?thesis
    using assms a b
    by (simp add: remapImagePath_def copyImage_def embedImage_def consoleLog_fs)
qed

theorem external_reference_unchanged_witness:
  \<open>isExternalUrl ''HTTPS://cdn.example.com/a.png''
   \<and> copyImage examplePaths initialConfig ''/docs'' ''out/images''
        \<lparr>fs = Map.empty, console = []\<rparr> ''HTTPS://cdn.example.com/a.png''
       = Inr (''HTTPS://cdn.example.com/a.png'',
              \<lparr>fs = Map.empty,
               console = [''External URL detected, keeping as-is: HTTPS://cdn.example.com/a.png'']\<rparr>)
   \<and> embedImage examplePaths initialConfig ''/docs''
        (''<img src="HTTPS://cdn.example.com/a.png">'', \<lparr>fs = Map.empty, console = []\<rparr>)
        \<lparr>fullTag = ''<img src="HTTPS://cdn.example.com/a.png">'',
         src = ''HTTPS://cdn.example.com/a.png''\<rparr>
       = Inr (''<img src="HTTPS://cdn.example.com/a.png">'',
              \<lparr>fs = Map.empty,
               console = [''External URL image detected: HTTPS://cdn.example.com/a.png'']\<rparr>)\<close>
proof -
  have e: "isExternalUrl ''HTTPS://cdn.example.com/a.png''" by code_simp
  from external_reference_unchanged [OF e] e show ?thesis
    by (simp add: consoleLog_def)
qed

text \<open>
  In linked mode a local reference with nothing at the resolved remapped path gives a
  warning on the console and is returned as it was before remapping; the file system is
  not touched, no error is thrown, and the references after it are processed.
\<close>

theorem copyImage_missing_file:
  assumes "\<not> isExternalUrl p"
    and "\<not> existsSync (fs w) (path_resolve P sourceDir (path_r (remapImagePath cfg p)))"
  shows "copyImage P cfg sourceDir imagesOutputDir w p
        = Inr (p, consoleLog w (''Warning: Image not found: ''
                   @ path_resolve P sourceDir (path_r (remapImagePath cfg p))))
    \<and> (\<forall>l. fs (consoleLog w l) = fs w)
    \<and> (\<forall>ps. copyLoop P cfg sourceDir imagesOutputDir w (p # ps)
          = (case copyLoop P cfg sourceDir imagesOutputDir
                   (consoleLog w (''Warning: Image not found: ''
                      @ path_resolve P sourceDir (path_r (remapImagePath cfg p)))) ps of
               Inl e \<Rightarrow> Inl e
             | Inr (rs, w2) \<Rightarrow> Inr (p # rs, w2)))"
proof -
  have ne: "\<not> isExternal (remapImagePath cfg p)"
    using assms(1) by (simp add: remapImagePath_def)
  have "copyImage P cfg sourceDir imagesOutputDir w p
        = Inr (p, consoleLog w (''Warning: Image not found: ''
                   @ path_resolve P sourceDir (path_r (remapImagePath cfg p))))"
    using assms ne by (simp add: copyImage_def Let_def)
  then show ?thesis by (simp add: consoleLog_fs)
qed

theorem copyImage_missing_file_witness:
  "\<not> isExternalUrl ''./img/missing.png''
   \<and> \<not> existsSync Map.empty
         (path_resolve examplePaths ''/docs''
            (path_r (remapImagePath initialConfig ''./img/missing.png'')))
   \<and> copyImage examplePaths initialConfig ''/docs'' ''out/images''
        \<lparr>fs = Map.empty, console = []\<rparr> ''./img/missing.png''
       = Inr (''./img/missing.png'',
              \<lparr>fs = Map.empty, console = [''Warning: Image not found: /docs/img/missing.png'']\<rparr>)"
proof -
  have e: "\<not> isExternalUrl ''./img/missing.png''" by code_simp
  have m: "\<not> existsSync (fs \<lparr>fs = Map.empty, console = []\<rparr>)
         (path_resolve examplePaths ''/docs''
            (path_r (remapImagePath initialConfig ''./img/missing.png'')))"
    by (simp add: existsSync_def)
  have r: "path_resolve examplePaths ''/docs''
            (path_r (remapImagePath initialConfig ''./img/missing.png''))
           = ''/docs/img/missing.png''"
    by code_simp
  from copyImage_missing_file [OF e m, of "''out/images''"] e m show ?thesis
    unfolding r by (simp add: consoleLog_def)
qed

lemma remap_local: "\<not> isExternalUrl p \<Longrightarrow> isExternal (remapImagePath cfg p) = False"
  by (simp add: remapImagePath_def)

lemma copyImage_directory:
  assumes "\<not> isExternalUrl p"
    and "fs w (resolvedPath P cfg sourceDir p) = Some Dir"
  shows "copyImage P cfg sourceDir imagesOutputDir w p = Inl EISDIR"
proof -
  define r where "r = path_resolve P sourceDir (path_r (remapImagePath cfg p))"
  define rel where "rel = stripDotSlash (path_dirname P (path_r (remapImagePath cfg p)))"
  define nested where "nested = path_join P imagesOutputDir rel"
  define out where
    "out = path_join P (if rel = ''.'' then imagesOutputDir else nested) (path_basename P r)"
  define f1 where
    "f1 = (if rel \<noteq> ''.'' \<and> \<not> existsSync (fs w) nested then (fs w)(nested \<mapsto> Dir) else fs w)"
  have rdir: "fs w r = Some Dir"
    using assms(2) by (simp add: resolvedPath_def r_def)
  then have ex: "existsSync (fs w) r" by (simp add: existsSync_def)
  have mk: "(if rel \<noteq> ''.'' \<and> \<not> existsSync (fs w) nested
                  then mkdirSync (fs w) nested else Inr (fs w)) = Inr f1"
    by (auto simp: f1_def mkdirSync_def existsSync_def)
  have f1r: "f1 r = Some Dir"
    using rdir by (auto simp: f1_def)
  have "copyFileSync f1 r out = Inl EISDIR"
    using f1r by (simp add: copyFileSync_def)
  then show ?thesis
    using assms(1) ex mk remap_local [OF assms(1), of cfg]
    unfolding copyImage_def Let_def r_def [symmetric] rel_def [symmetric] nested_def [symmetric]
      out_def [symmetric]
    by (simp add: out_def)
qed

text \<open>
  C5. In linked mode a local reference whose remapped path does not resolve to an existing
  file should give a warning and come back unchanged, with no exception. That holds when
  nothing exists at the resolved path (\<open>copyImage_missing_file\<close>). It fails when a
  directory is there: \<open>existsSync\<close> is true of a directory, the branch that copies is taken,
  and \<open>copyFileSync\<close> throws. With the document \<open>/docs/page.md\<close>, the reference \<open>sub\<close> and a
  directory \<open>/docs/sub\<close>, the run of \<open>copyImages\<close> ends in the exception; no warning is
  logged and no reference is returned.
\<close>

theorem copyImages_directory_throws:
  "\<not> isExternalUrl ''sub''
   \<and> [''/docs/sub'' \<mapsto> Dir] (resolvedPath examplePaths initialConfig ''/docs'' ''sub'') = Some Dir
   \<and> copyImages examplePaths initialConfig ''/docs/page.md'' [''sub''] ''out''
        \<lparr>fs = [''/docs/sub'' \<mapsto> Dir], console = []\<rparr> = Inl EISDIR"
proof -
  have e: "\<not> isExternalUrl ''sub''" by code_simp
  have d: "path_dirname examplePaths ''/docs/page.md'' = ''/docs''" by code_simp
  have j: "path_join examplePaths ''out'' ''images'' = ''out/images''" by code_simp
  have r: "resolvedPath examplePaths initialConfig ''/docs'' ''sub'' = ''/docs/sub''"
    by code_simp
  have "copyImage examplePaths initialConfig ''/docs'' ''out/images''
          \<lparr>fs = [''/docs/sub'' \<mapsto> Dir, ''out/images'' \<mapsto> Dir], console = []\<rparr> ''sub'' = Inl EISDIR"
    by (rule copyImage_directory [OF e]) (simp add: r)
  then show ?thesis
    using e by (simp add: copyImages_def d j r existsSync_def mkdirSync_def)
qed

lemma copyImage_existing:
  assumes "\<not> isExternalUrl p"
    and "fs w (resolvedPath P cfg sourceDir p) = Some (File bytes)"
    and "copyImage P cfg sourceDir imagesOutputDir w p = Inr (ref, w')"
  shows "fs w' (copyTarget P cfg sourceDir imagesOutputDir p) = Some (File bytes)"
proof -
  define r where "r = path_resolve P sourceDir (path_r (remapImagePath cfg p))"
  define rel where "rel = stripDotSlash (path_dirname P (path_r (remapImagePath cfg p)))"
  define nested where "nested = path_join P imagesOutputDir rel"
  define out where
    "out = path_join P (if rel = ''.'' then imagesOutputDir else nested) (path_basename P r)"
  define f1 where
    "f1 = (if rel \<noteq> ''.'' \<and> \<not> existsSync (fs w) nested then (fs w)(nested \<mapsto> Dir) else fs w)"
  have rfile: "fs w r = Some (File bytes)"
    using assms(2) by (simp add: resolvedPath_def r_def)
  then have ex: "existsSync (fs w) r" by (simp add: existsSync_def)
  have mk: "(if rel \<noteq> ''.'' \<and> \<not> existsSync (fs w) nested
                  then mkdirSync (fs w) nested else Inr (fs w)) = Inr f1"
    by (auto simp: f1_def mkdirSync_def existsSync_def)
  have "nested \<noteq> r" if "\<not> existsSync (fs w) nested"
    using that ex by auto
  then have f1r: "f1 r = Some (File bytes)"
    using rfile by (auto simp: f1_def)
  have target: "copyTarget P cfg sourceDir imagesOutputDir p = out"
    by (simp add: copyTarget_def resolvedPath_def out_def nested_def rel_def r_def Let_def)
  have "copyImage P cfg sourceDir imagesOutputDir w p
        = (case copyFileSync f1 r out of
             Inl e \<Rightarrow> Inl e
           | Inr f2 \<Rightarrow> Inr (if rel = ''.'' then ''images/'' @ path_basename P r
                               else ''images/'' @ rel @ ''/'' @ path_basename P r, w\<lparr>fs := f2\<rparr>))"
    using assms(1) ex mk remap_local [OF assms(1), of cfg]
    unfolding copyImage_def Let_def r_def [symmetric] rel_def [symmetric] nested_def [symmetric]
      out_def [symmetric]
    by (simp add: out_def)
  moreover have "copyFileSync f1 r out = Inr f2 \<Longrightarrow> f2 out = Some (File bytes)" for f2
    using f1r by (auto simp: copyFileSync_def split: option.splits node.splits)
  ultimately show ?thesis
    using assms(3) unfolding target by (auto split: sum.splits)
qed

lemma embedImage_existing:
  assumes "\<not> isExternalUrl p"
    and "fs w (resolvedPath P cfg sourceDir p) = Some (File bytes)"
  shows \<open>embedImage P cfg sourceDir (html, w) \<lparr>fullTag = tag, src = p\<rparr>
     = Inr (replaceString html tag
              (replaceString tag (''src="'' @ p @ ''"'')
                 (''src="'' @ dataUriOf (mimeTypeOf (map toLowerCaseChar
                       (drop 1 (path_extname P (resolvedPath P cfg sourceDir p))))) bytes @ ''"'')),
            consoleLog w (''Embedded image: '' @ path_basename P (resolvedPath P cfg sourceDir p)))\<close>
  using assms remap_local [OF assms(1), of cfg]
  by (simp add: embedImage_def Let_def resolvedPath_def existsSync_def readFileSync_def)

text \<open>
  C10. Whether a reference is external is decided on the string before remapping. A
  reference that does not begin with \<open>http://\<close> or \<open>https://\<close> is never marked external,
  whatever the rules make of it, and both modes look the rewritten string up as a path
  resolved against the directory of the source document: with no file there, both warn,
  naming that path, and leave the reference alone; with a file there, linked mode copies
  that file and embedded mode embeds its bytes.
\<close>

theorem rewritten_reference_is_local:
  assumes "\<not> isExternalUrl p"
  shows \<open>isExternal (remapImagePath cfg p) = False
    \<and> (fs w (resolvedPath P cfg sourceDir p) = None \<longrightarrow>
          copyImage P cfg sourceDir imagesOutputDir w p
            = Inr (p, consoleLog w (''Warning: Image not found: '' @ resolvedPath P cfg sourceDir p))
          \<and> embedImage P cfg sourceDir (html, w) \<lparr>fullTag = tag, src = p\<rparr>
            = Inr (html, consoleLog w (''Warning: Image not found for embedding: ''
                                        @ resolvedPath P cfg sourceDir p)))
    \<and> (\<forall>bytes. fs w (resolvedPath P cfg sourceDir p) = Some (File bytes) \<longrightarrow>
          (\<forall>ref w'. copyImage P cfg sourceDir imagesOutputDir w p = Inr (ref, w') \<longrightarrow>
              fs w' (copyTarget P cfg sourceDir imagesOutputDir p) = Some (File bytes))
          \<and> embedImage P cfg sourceDir (html, w) \<lparr>fullTag = tag, src = p\<rparr>
            = Inr (replaceString html tag
                     (replaceString tag (''src="'' @ p @ ''"'')
                        (''src="'' @ dataUriOf (mimeTypeOf (map toLowerCaseChar
                            (drop 1 (path_extname P (resolvedPath P cfg sourceDir p))))) bytes @ ''"'')),
                   consoleLog w (''Embedded image: ''
                                  @ path_basename P (resolvedPath P cfg sourceDir p))))\<close>
proof -
  have a: "isExternal (remapImagePath cfg p) = False"
    using assms by (rule remap_local)
  have b: "fs w (resolvedPath P cfg sourceDir p) = None \<Longrightarrow>
          copyImage P cfg sourceDir imagesOutputDir w p
            = Inr (p, consoleLog w (''Warning: Image not found: '' @ resolvedPath P cfg sourceDir p))
          \<and> embedImage P cfg sourceDir (html, w) \<lparr>fullTag = tag, src = p\<rparr>
            = Inr (html, consoleLog w (''Warning: Image not found for embedding: ''
                                        @ resolvedPath P cfg sourceDir p))"
    using assms a
    by (simp add: copyImage_def embedImage_def Let_def resolvedPath_def existsSync_def)
  show ?thesis
    using a b copyImage_existing [OF assms] embedImage_existing [OF assms]
    by blast
qed

theorem rewritten_reference_is_local_witness:
  "\<not> isExternalUrl ''cdn://host/x.png''
   \<and> remapImagePath (configFromOptions ''cdn:https'') ''cdn://host/x.png''
       = \<lparr>path_r = ''https://host/x.png'', isExternal = False\<rparr>
   \<and> isExternalUrl ''https://host/x.png''
   \<and> copyImage examplePaths (configFromOptions ''cdn:https'') ''/docs'' ''out/images''
        \<lparr>fs = Map.empty, console = []\<rparr> ''cdn://host/x.png''
       = Inr (''cdn://host/x.png'',
              \<lparr>fs = Map.empty,
               console = [''Warning: Image not found: /docs/https://host/x.png'']\<rparr>)"
proof -
  have e: "\<not> isExternalUrl ''cdn://host/x.png''" by code_simp
  have x: "isExternalUrl ''https://host/x.png''" by code_simp
  have m: "remapImagePath (configFromOptions ''cdn:https'') ''cdn://host/x.png''
       = \<lparr>path_r = ''https://host/x.png'', isExternal = False\<rparr>"
    by code_simp
  have r: "resolvedPath examplePaths (configFromOptions ''cdn:https'') ''/docs'' ''cdn://host/x.png''
           = ''/docs/https://host/x.png''"
    unfolding resolvedPath_def m by code_simp
  from rewritten_reference_is_local [OF e, of "configFromOptions ''cdn:https''"
      "\<lparr>fs = Map.empty, console = []\<rparr>" examplePaths "''/docs''" "''out/images''"]
  have "copyImage examplePaths (configFromOptions ''cdn:https'') ''/docs'' ''out/images''
        \<lparr>fs = Map.empty, console = []\<rparr> ''cdn://host/x.png''
       = Inr (''cdn://host/x.png'',
              consoleLog \<lparr>fs = Map.empty, console = []\<rparr>
                (''Warning: Image not found: '' @ ''/docs/https://host/x.png''))"
    unfolding r by simp
  then show ?thesis using e x m by (simp add: consoleLog_def)
qed

section \<open>Embedded images\<close>

lemma b64_table: "\<forall>n \<in> set [0..<64]. b64val (b64char n) = Some n \<and> b64char n \<noteq> CHR ''=''"
  by code_simp

lemma b64val_b64char: "n < 64 \<Longrightarrow> b64val (b64char n) = Some n"
  using b64_table by simp

lemma b64char_not_pad: "n < 64 \<Longrightarrow> b64char n \<noteq> CHR ''=''"
  using b64_table by simp

lemma div16_less: "y < 256 \<Longrightarrow> (y::nat) div 16 < 16"
  by (simp add: less_mult_imp_div_less)

lemma div64_less: "z < 256 \<Longrightarrow> (z::nat) div 64 < 4"
  by (simp add: less_mult_imp_div_less)

lemma div4_less: "x < 256 \<Longrightarrow> (x::nat) div 4 < 64"
  by (simp add: less_mult_imp_div_less)

lemma sextet_bound_2: "y < 256 \<Longrightarrow> (x::nat) mod 4 * 16 + y div 16 < 64"
proof -
  assume "y < 256"
  then have "y div 16 < 16" by (rule div16_less)
  moreover have "x mod 4 < 4" by simp
  ultimately show ?thesis by linarith
qed

lemma sextet_bound_3: "z < 256 \<Longrightarrow> (y::nat) mod 16 * 4 + z div 64 < 64"
proof -
  assume "z < 256"
  then have "z div 64 < 4" by (rule div64_less)
  moreover have "y mod 16 < 16" by simp
  ultimately show ?thesis by linarith
qed

lemma sextets_1: "(x::nat) div 4 * 4 + (x mod 4 * 16 + y div 16) div 16 = x" if "y < 256"
proof -
  have "y div 16 < 16" using that by (rule div16_less)
  then have "(x mod 4 * 16 + y div 16) div 16 = x mod 4" by simp
  then show ?thesis by simp
qed

lemma sextets_2:
  "((x::nat) mod 4 * 16 + y div 16) mod 16 * 16 + (y mod 16 * 4 + z div 64) div 4 = y"
  if "y < 256" "z < 256"
proof -
  have q: "y div 16 < 16" using that(1) by (rule div16_less)
  have s: "z div 64 < 4" using that(2) by (rule div64_less)
  have "(x mod 4 * 16 + y div 16) mod 16 = y div 16" using q by simp
  moreover have "(y mod 16 * 4 + z div 64) div 4 = y mod 16" using s by simp
  ultimately show ?thesis by simp
qed

lemma sextets_3: "((y::nat) mod 16 * 4 + z div 64) mod 4 * 64 + z mod 64 = z" if "z < 256"
proof -
  have s: "z div 64 < 4" using that by (rule div64_less)
  then have "(y mod 16 * 4 + z div 64) mod 4 = z div 64" by simp
  then show ?thesis by simp
qed

lemma unat_byte: "unat (a :: byte) < 256"
  using unsigned_less [of a, where ?'a = nat] by simp

theorem fromBase64_toBase64: "fromBase64 (toBase64 bytes) = Some bytes"
proof (induction bytes rule: toBase64.induct)
  case 1
  then show ?case by simp
next
  case (2 a)
  let ?x = "unat a"
  have x: "?x < 256" by (rule unat_byte)
  have v1: "b64val (b64char (?x div 4)) = Some (?x div 4)"
    using x by (intro b64val_b64char div4_less)
  have "?x mod 4 < 4" by simp
  then have "?x mod 4 * 16 < 64" by linarith
  then have v2: "b64val (b64char (?x mod 4 * 16)) = Some (?x mod 4 * 16)"
    by (rule b64val_b64char)
  have "?x div 4 * 4 + (?x mod 4 * 16) div 16 = ?x" by simp
  then show ?case by (simp add: Let_def v1 v2)
next
  case (3 a b)
  let ?x = "unat a" and ?y = "unat b"
  have x: "?x < 256" and y: "?y < 256" by (rule unat_byte)+
  have v1: "b64val (b64char (?x div 4)) = Some (?x div 4)"
    using x by (intro b64val_b64char div4_less)
  have v2: "b64val (b64char (?x mod 4 * 16 + ?y div 16)) = Some (?x mod 4 * 16 + ?y div 16)"
    using y by (intro b64val_b64char sextet_bound_2)
  have "?y mod 16 < 16" by simp
  then have b3: "?y mod 16 * 4 < 64" by linarith
  have v3: "b64val (b64char (?y mod 16 * 4)) = Some (?y mod 16 * 4)"
    using b3 by (rule b64val_b64char)
  have n3: "b64char (?y mod 16 * 4) \<noteq> CHR ''=''"
    using b3 by (rule b64char_not_pad)
  have "(?x mod 4 * 16 + ?y div 16) mod 16 * 16 + (?y mod 16 * 4) div 4 = ?y"
    using sextets_2 [OF y, of 0 ?x] by simp
  then show ?case
    using sextets_1 [OF y, of ?x] by (simp add: Let_def v1 v2 v3 n3)
next
  case (4 a b c rest)
  let ?x = "unat a" and ?y = "unat b" and ?z = "unat c"
  have x: "?x < 256" and y: "?y < 256" and z: "?z < 256" by (rule unat_byte)+
  have v1: "b64val (b64char (?x div 4)) = Some (?x div 4)"
    using x by (intro b64val_b64char div4_less)
  have v2: "b64val (b64char (?x mod 4 * 16 + ?y div 16)) = Some (?x mod 4 * 16 + ?y div 16)"
    using y by (intro b64val_b64char sextet_bound_2)
  have v3: "b64val (b64char (?y mod 16 * 4 + ?z div 64)) = Some (?y mod 16 * 4 + ?z div 64)"
    using z by (intro b64val_b64char sextet_bound_3)
  have v4: "b64val (b64char (?z mod 64)) = Some (?z mod 64)"
    by (intro b64val_b64char) simp
  have n3: "b64char (?y mod 16 * 4 + ?z div 64) \<noteq> CHR ''=''"
    using z by (intro b64char_not_pad sextet_bound_3)
  have n4: "b64char (?z mod 64) \<noteq> CHR ''=''"
    by (intro b64char_not_pad) simp
  show ?case
    using 4 sextets_1 [OF y, of ?x] sextets_2 [OF y z, of ?x] sextets_3 [OF z, of ?y]
    by (simp add: Let_def v1 v2 v3 v4 n3 n4)
qed

lemma b64char_not_dollar: "n < 64 \<Longrightarrow> b64char n \<noteq> CHR ''$''"
proof -
  have "\<forall>n \<in> set [0..<64]. b64char n \<noteq> CHR ''$''" by code_simp
  then show "n < 64 \<Longrightarrow> b64char n \<noteq> CHR ''$''" by simp
qed

lemma mimeTypeOf_table:
  "mimeTypeOf ''jpg'' = ''image/jpeg'' \<and> mimeTypeOf ''jpeg'' = ''image/jpeg''
   \<and> mimeTypeOf ''png'' = ''image/png'' \<and> mimeTypeOf ''gif'' = ''image/gif''
   \<and> mimeTypeOf ''svg'' = ''image/svg+xml'' \<and> mimeTypeOf ''webp'' = ''image/webp''
   \<and> (ext \<notin> {''jpg'', ''jpeg'', ''png'', ''gif'', ''svg'', ''webp''}
        \<longrightarrow> mimeTypeOf ext = ''image/'' @ ext)"
  by (simp add: mimeTypeOf_def)

lemma dataUri_payload:
  "fromBase64 (drop (length (''data:'' @ mimeType @ '';base64,'')) (dataUriOf mimeType bytes))
     = Some bytes"
  by (simp add: dataUriOf_def fromBase64_toBase64)

text \<open>
  What embedded mode does for an existing file when nothing stands in the way: the tag has
  no \<open>$\<close>, nor has the MIME type, and the text \<open>src="..."\<close> of the reference stands in
  the tag at the src attribute first. Then the attribute's value becomes the data URI, and
  the payload of the URI decodes to the bytes of the file (\<open>dataUri_payload\<close>).
\<close>

lemma dollar_not_b64char: "n < 64 \<Longrightarrow> CHR ''$'' \<noteq> b64char n"
  using b64char_not_dollar [of n] by auto

lemma toBase64_no_dollar: "CHR ''$'' \<notin> set (toBase64 bytes)"
proof (induction bytes rule: toBase64.induct)
  case 1
  then show ?case by simp
next
  case (2 a)
  let ?x = "unat a"
  have x: "?x < 256" by (rule unat_byte)
  have "?x mod 4 < 4" by simp
  then have "?x mod 4 * 16 < 64" by linarith
  then show ?case
    using x by (simp add: Let_def dollar_not_b64char div4_less)
next
  case (3 a b)
  let ?x = "unat a" and ?y = "unat b"
  have x: "?x < 256" and y: "?y < 256" by (rule unat_byte)+
  have "?y mod 16 < 16" by simp
  then have "?y mod 16 * 4 < 64" by linarith
  then show ?case
    using x y by (simp add: Let_def dollar_not_b64char div4_less sextet_bound_2)
next
  case (4 a b c rest)
  let ?x = "unat a" and ?y = "unat b" and ?z = "unat c"
  have x: "?x < 256" and y: "?y < 256" and z: "?z < 256" by (rule unat_byte)+
  show ?case
    using 4 x y z
    by (simp add: Let_def dollar_not_b64char div4_less sextet_bound_2 sextet_bound_3)
qed

lemma embedded_src_replaced:
  assumes "\<not> isExternalUrl p"
    and "fs w (resolvedPath P cfg sourceDir p) = Some (File bytes)"
    and \<open>tag = pre @ ''src="'' @ p @ ''"'' @ post\<close>
    and \<open>indexOf (''src="'' @ p @ ''"'') tag = Some (length pre)\<close>
    and "indexOf tag html = Some i"
    and "CHR ''$'' \<notin> set tag"
    and "mimeType = mimeTypeOf (map toLowerCaseChar
                       (drop 1 (path_extname P (resolvedPath P cfg sourceDir p))))"
    and "CHR ''$'' \<notin> set mimeType"
  shows \<open>embedImage P cfg sourceDir (html, w) \<lparr>fullTag = tag, src = p\<rparr>
     = Inr (take i html @ pre @ ''src="'' @ dataUriOf mimeType bytes @ ''"'' @ post
              @ drop (i + length tag) html,
            consoleLog w (''Embedded image: '' @ path_basename P (resolvedPath P cfg sourceDir p)))\<close>
proof -
  define uri where "uri = dataUriOf mimeType bytes"
  define pat where \<open>pat = ''src="'' @ p @ ''"''\<close>
  define rep where \<open>rep = ''src="'' @ uri @ ''"''\<close>
  have u: "CHR ''$'' \<notin> set rep"
    using assms(8) by (simp add: rep_def uri_def dataUriOf_def toBase64_no_dollar)
  have t: "tag = pre @ pat @ post"
    by (simp add: assms(3) pat_def)
  have ix: "indexOf pat tag = Some (length pre)"
    using assms(4) by (simp add: pat_def)
  have n: "replaceString tag pat rep = pre @ rep @ post"
    using replaceString_plain [OF ix u] by (simp add: t)
  have "CHR ''$'' \<notin> set (pre @ rep @ post)"
    using assms(6) u by (simp add: t)
  from replaceString_plain [OF assms(5) this]
  have "replaceString html tag (pre @ rep @ post)
        = take i html @ (pre @ rep @ post) @ drop (i + length tag) html" .
  then have "replaceString html tag (replaceString tag pat rep)
        = take i html @ pre @ rep @ post @ drop (i + length tag) html"
    unfolding n by simp
  then show ?thesis
    unfolding embedImage_existing [OF assms(1,2)] assms(7) [symmetric]
    by (simp add: pat_def rep_def uri_def)
qed

text \<open>
  C4. The claim says that the src attribute of every image element whose file exists is
  replaced by the data URI. The code finds the image by the last \<open>src="..."\<close> of the tag
  and then replaces the first place in the tag where that text stands. In
  \<open><img data-src="a.png" src="a.png">\<close>, with the four bytes 1, 2, 3, 4 in \<open>/docs/a.png\<close>,
  the data URI goes into the \<open>data-src\<close> attribute and the src attribute stays
  \<open>a.png\<close>.
\<close>

theorem embedded_src_not_replaced:
  \<open>map_sum id (\<lambda>r. (fst r, console (snd r)))
     (convertImagesToBase64 examplePaths initialConfig ''/docs/page.md''
        ''<img data-src="a.png" src="a.png">''
        \<lparr>fs = [''/docs/a.png'' \<mapsto> File [1, 2, 3, 4]], console = []\<rparr>)
   = Inr (''<img data-src="data:image/png;base64,AQIDBA==" src="a.png">'', [''Embedded image: a.png''])\<close>
  by code_simp

end
